theory Spec2Isabelle
  imports Main "HOL-Library.Word" "HOL-Library.Multiset"
begin

section \<open>Data model of package post\<close>

text \<open>
  A \<^verbatim>\<open>time.Time\<close> is modelled by the instant it denotes: an integer count of
  nanoseconds relative to the zero time (January 1, year 1, 00:00:00 UTC). The
  three methods of \<^verbatim>\<open>time.Time\<close> the package calls are the comparisons below.
\<close>

type_synonym Time = int

definition IsZero :: "Time \<Rightarrow> bool" where
  "IsZero t = (t = 0)"

definition After :: "Time \<Rightarrow> Time \<Rightarrow> bool" where
  "After t u = (u < t)"

definition Equal :: "Time \<Rightarrow> Time \<Rightarrow> bool" where
  "Equal t u = (t = u)"

text \<open>
  The error values and panic values of the package: the error of
  \<^verbatim>\<open>blogTime.UnmarshalJSON\<close>, the error of a failed \<^verbatim>\<open>c.Read\<close> or \<^verbatim>\<open>c.ReadDir\<close> (with the
  path), the two panics of \<^verbatim>\<open>loadPost\<close> (with the file name and the message of
  \<^verbatim>\<open>json.Unmarshal\<close>), the run-time panic of indexing an empty slice, the error of
  parsing or executing a template, the error of \<^verbatim>\<open>xml.Marshal\<close> or \<^verbatim>\<open>json.Marshal\<close>, and
  the error of a failed \<^verbatim>\<open>c.Write\<close>.
\<close>

datatype error =
    DidNotRecognizeTime string
  | ReadError string
  | CannotFindEnd
  | LoadingError string string
  | IndexOutOfRange
  | ExecuteError string
  | MarshalError string
  | WriteError string

text \<open>
  A call either returns its results, returns a non-nil \<^verbatim>\<open>err\<close>, or panics.
\<close>

datatype 'a outcome = Return 'a | ReturnErr error | Panic error

text \<open>
  \<^verbatim>\<open>proto.FileInfo\<close>, as the storage layer reports a directory entry or a file. The
  \<^verbatim>\<open>int64\<close> size is only ever compared for equality.
\<close>

record FileInfo =
  Name :: string
  ModTime :: Time
  Size :: "64 word"
  IsDir :: bool

text \<open>
  \<^verbatim>\<open>Config\<close> (its field \<^verbatim>\<open>Name\<close> is \<open>cfgName\<close> here) and \<^verbatim>\<open>PostData\<close>; the \<^verbatim>\<open>blogTime\<close>
  of \<^verbatim>\<open>Date\<close> embeds a \<^verbatim>\<open>time.Time\<close>. The name \<open>Name\<close> alone is the field of
  \<^verbatim>\<open>PostData\<close>; the field of \<^verbatim>\<open>proto.FileInfo\<close> is written \<open>FileInfo.Name\<close>.
\<close>

record Config =
  cfgName :: string
  Email :: string
  Account :: string
  PlusID :: string
  PlusKey :: string
  PublicURL :: string
  FeedID :: string
  FeedTitle :: string

record PostData =
  FileModTime :: Time
  FileSize :: "64 word"
  Title :: string
  Date :: Time
  Name :: string
  OldURL :: string
  Summary :: string
  Favorite :: bool
  NotInTOC :: bool
  Aux :: string
  Author :: string
  Reader :: "string list"
  PlusAuthor :: string
  PlusPage :: string
  PlusAPIKey :: string
  PlusURL :: string
  HostURL :: string
  Comments :: bool
  article :: string

text \<open>The zero value of \<^verbatim>\<open>PostData\<close>.\<close>

definition zeroPostData :: PostData where
  "zeroPostData =
     \<lparr>FileModTime = 0, FileSize = 0, Title = [], Date = 0, Name = [], OldURL = [],
      Summary = [], Favorite = False, NotInTOC = False, Aux = [], Author = [],
      Reader = [], PlusAuthor = [], PlusPage = [], PlusAPIKey = [], PlusURL = [],
      HostURL = [], Comments = False, article = []\<rparr>"

text \<open>
  \<^verbatim>\<open>TocData\<close>; its fields \<^verbatim>\<open>User\<close>, \<^verbatim>\<open>Draft\<close> and \<^verbatim>\<open>HostURL\<close> carry the prefix \<open>toc_\<close>.
\<close>

record TocData =
  toc_User :: string
  toc_Draft :: bool
  toc_HostURL :: string
  DraftRoot :: string
  PostRoot :: string
  Posts :: "PostData list"

text \<open>
  The entries and the feed of package \<^verbatim>\<open>atom\<close>, with the fields \<^verbatim>\<open>atomfeed\<close> sets: of
  an entry the title, the id, the target of its one link, the two times, the body of the
  summary and of the content; of the feed the title, the id, the time, the author, the
  target of its one link, and the entries.
\<close>

record AtomEntry =
  entry_Title :: string
  entry_ID :: string
  entry_Link :: string
  entry_Published :: Time
  entry_Updated :: Time
  entry_Summary :: string
  entry_Content :: string

record AtomFeed =
  feed_Title :: string
  feed_ID :: string
  feed_Updated :: Time
  feed_AuthorName :: string
  feed_AuthorURI :: string
  feed_AuthorEmail :: string
  feed_Link :: string
  feed_Entry :: "AtomEntry list"

subsection \<open>The collaborators\<close>

text \<open>
  What the package calls but does not define is a parameter of the model, gathered in
  one record:
  \<^item> \<open>Read c name\<close> is \<^verbatim>\<open>c.Read(name)\<close> of the storage context: the bytes of the file
    and its \<^verbatim>\<open>proto.FileInfo\<close>, or \<open>None\<close> for an error;
  \<^item> \<open>ReadDir c path\<close> is \<^verbatim>\<open>c.ReadDir(path)\<close>: the entries of one directory, each under
    its name in that directory, or \<open>None\<close> for an error;
  \<^item> \<open>Unmarshal c hdr meta\<close> is \<^verbatim>\<open>json.Unmarshal(hdr, meta)\<close> on a \<^verbatim>\<open>*PostData\<close>: the
    message of the error, or \<open>meta\<close> with the fields of the header stored;
  \<^item> \<open>UnmarshalCache c data\<close> is \<^verbatim>\<open>json.Unmarshal(data, &postCache)\<close> on the empty map:
    the map afterwards, and the message of the error if there is one;
  \<^item> \<open>Join c\<close> is \<^verbatim>\<open>path.Join\<close> of two elements;
  \<^item> \<open>Sort c less xs\<close> is the slice after \<^verbatim>\<open>sort.Sort\<close>, whose \<^verbatim>\<open>Less\<close> compares
    elements with \<open>less\<close>;
  \<^item> \<open>Execute c main meta\<close> parses the template text \<open>main\<close> and the article of \<open>meta\<close>
    and executes the template on \<open>meta\<close>: the message of the first error, or the output;
  \<^item> \<open>ExecuteTOC c main toc\<close> parses the template text \<open>main\<close> and executes its
    template \<^verbatim>\<open>toc\<close> on \<open>toc\<close>, likewise;
  \<^item> \<open>Marshal c feed\<close> is \<^verbatim>\<open>xml.Marshal\<close> of the feed: the message of the error, or the
    bytes;
  \<^item> \<open>MarshalCache c postCache\<close> is \<^verbatim>\<open>json.Marshal(postCache)\<close>: the message of the error,
    or the bytes;
  \<^item> \<open>Write c name data\<close> is \<^verbatim>\<open>c.Write(name, data)\<close> of the storage context: the message
    of the error, or \<open>None\<close> when the file has been written;
  \<^item> \<open>Now c\<close> is the value of \<^verbatim>\<open>time.Now()\<close>, taken as one instant for the request;
  \<^item> \<open>Host c\<close> is \<^verbatim>\<open>req.Host\<close>.
\<close>

record Env =
  Read :: "string \<Rightarrow> (string \<times> FileInfo) option"
  ReadDir :: "string \<Rightarrow> FileInfo list option"
  Unmarshal :: "string \<Rightarrow> PostData \<Rightarrow> string + PostData"
  UnmarshalCache :: "string \<Rightarrow> (string \<rightharpoonup> PostData) \<times> string option"
  Join :: "string \<Rightarrow> string \<Rightarrow> string"
  Sort :: "(PostData \<Rightarrow> PostData \<Rightarrow> bool) \<Rightarrow> PostData list \<Rightarrow> PostData list"
  Execute :: "string \<Rightarrow> PostData \<Rightarrow> string + string"
  ExecuteTOC :: "string \<Rightarrow> TocData \<Rightarrow> string + string"
  Marshal :: "AtomFeed \<Rightarrow> string + string"
  MarshalCache :: "(string \<rightharpoonup> PostData) \<Rightarrow> string + string"
  Write :: "string \<Rightarrow> string \<Rightarrow> string option"
  Now :: Time
  Host :: string

section \<open>The functions of post.go\<close>

subsection \<open>Parsing the Date field\<close>

definition RFC3339 :: string where
  "RFC3339 = ''2006-01-02T15:04:05Z07:00''"

definition timeFormats :: "string list" where
  "timeFormats = [RFC3339, ''Monday, January 2, 2006'', ''January 2, 2006 15:00 -0700'']"

text \<open>The layout handed to \<^verbatim>\<open>time.Parse\<close> is the format between two double quotes.\<close>

definition quoted :: "string \<Rightarrow> string" where
  "quoted f = [CHR 0x22] @ f @ [CHR 0x22]"

text \<open>
  \<^verbatim>\<open>time.Parse\<close> belongs to the Go library; it is the parameter \<open>Parse layout value\<close>,
  \<open>None\<close> when it returns an error. The loop returns at the first layout that parses.
\<close>

fun tryFormats :: "(string \<Rightarrow> string \<Rightarrow> Time option) \<Rightarrow> string list \<Rightarrow> string \<Rightarrow> Time option" where
  "tryFormats Parse [] str = None"
| "tryFormats Parse (f # fs) str =
     (case Parse (quoted f) str of
        Some tt \<Rightarrow> Some tt
      | None \<Rightarrow> tryFormats Parse fs str)"

text \<open>
  \<^verbatim>\<open>blogTime.UnmarshalJSON\<close>: \<open>Inr tt\<close> is the nil error with the receiver set to \<open>tt\<close>.
\<close>

definition UnmarshalJSON :: "(string \<Rightarrow> string \<Rightarrow> Time option) \<Rightarrow> string \<Rightarrow> error + Time" where
  "UnmarshalJSON Parse data =
     (case tryFormats Parse timeFormats data of
        Some tt \<Rightarrow> Inr tt
      | None \<Rightarrow> Inl (DidNotRecognizeTime data))"

subsection \<open>Visibility of a post\<close>

fun canRead_loop :: "string list \<Rightarrow> string \<Rightarrow> bool" where
  "canRead_loop [] user = False"
| "canRead_loop (r # rs) user = (if r = user then True else canRead_loop rs user)"

definition canRead :: "PostData \<Rightarrow> string \<Rightarrow> bool" where
  "canRead d user = canRead_loop (Reader d) user"

text \<open>\<^verbatim>\<open>IsDraft\<close> reads the clock; \<open>now\<close> is the value of \<^verbatim>\<open>time.Now()\<close>.\<close>

definition IsDraft :: "Time \<Rightarrow> PostData \<Rightarrow> bool" where
  "IsDraft now d = (IsZero (Date d) \<or> After (Date d) now)"

text \<open>The condition under which \<^verbatim>\<open>gentoc\<close> appends a post to the listing.\<close>

definition inTOC :: "bool \<Rightarrow> bool \<Rightarrow> string \<Rightarrow> Time \<Rightarrow> PostData \<Rightarrow> bool" where
  "inTOC draft isOwner user now meta =
     ((\<not> draft \<and> \<not> IsDraft now meta \<and> \<not> NotInTOC meta) \<or> (isOwner \<and> draft) \<or> canRead meta user)"

text \<open>
  The condition under which \<^verbatim>\<open>serve\<close> answers a request for a post that loaded with
  the not-found page, and the key under which \<^verbatim>\<open>toc\<close> looks the listing up in the
  output cache and \<^verbatim>\<open>gentoc\<close> stores it (\<open>readdir\<close> is the form value of that name).
\<close>

definition notServed :: "bool \<Rightarrow> bool \<Rightarrow> string \<Rightarrow> Time \<Rightarrow> PostData \<Rightarrow> bool" where
  "notServed draft isOwner user now meta =
     (IsDraft now meta \<noteq> draft \<or> (draft \<and> \<not> isOwner \<and> \<not> canRead meta user))"

definition keystr :: "bool \<Rightarrow> string \<Rightarrow> string \<Rightarrow> string" where
  "keystr draft readdir user =
     ''blog:toc:'' @ (if draft then ''true'' else ''false'')
       @ (if readdir \<noteq> [] then '',readdir='' @ readdir else [])
       @ (if draft then '',user='' @ user else [])"

subsection \<open>Loading a post\<close>

text \<open>\<^verbatim>\<open>bytes.HasPrefix\<close>, and \<^verbatim>\<open>bytes.Index\<close> with \<open>None\<close> for the result -1.\<close>

fun HasPrefix :: "string \<Rightarrow> string \<Rightarrow> bool" where
  "HasPrefix s [] = True"
| "HasPrefix [] (p # ps) = False"
| "HasPrefix (c # cs) (p # ps) = (c = p \<and> HasPrefix cs ps)"

fun Index :: "string \<Rightarrow> string \<Rightarrow> nat option" where
  "Index [] sep = (if sep = [] then Some 0 else None)"
| "Index (c # cs) sep =
     (if HasPrefix (c # cs) sep then Some 0 else map_option Suc (Index cs sep))"

text \<open>
  The table of \<^verbatim>\<open>replacer\<close>, its glyphs in UTF-8: the superscripts 0 to 9 and n, the
  subscripts 0 to 9, two backquotes and two apostrophes. \<open>Replace\<close> walks the string
  once: where an old string of the table starts, the first such pair in the order of the
  table is replaced and the walk goes on behind it; any other byte is copied.
\<close>

definition replacer :: "(string \<times> string) list" where
  "replacer =
     [([CHR 0xE2, CHR 0x81, CHR 0xB0], ''<sup>0</sup>''),
      ([CHR 0xC2, CHR 0xB9], ''<sup>1</sup>''),
      ([CHR 0xC2, CHR 0xB2], ''<sup>2</sup>''),
      ([CHR 0xC2, CHR 0xB3], ''<sup>3</sup>''),
      ([CHR 0xE2, CHR 0x81, CHR 0xB4], ''<sup>4</sup>''),
      ([CHR 0xE2, CHR 0x81, CHR 0xB5], ''<sup>5</sup>''),
      ([CHR 0xE2, CHR 0x81, CHR 0xB6], ''<sup>6</sup>''),
      ([CHR 0xE2, CHR 0x81, CHR 0xB7], ''<sup>7</sup>''),
      ([CHR 0xE2, CHR 0x81, CHR 0xB8], ''<sup>8</sup>''),
      ([CHR 0xE2, CHR 0x81, CHR 0xB9], ''<sup>9</sup>''),
      ([CHR 0xE2, CHR 0x81, CHR 0xBF], ''<sup>n</sup>''),
      ([CHR 0xE2, CHR 0x82, CHR 0x80], ''<sub>0</sub>''),
      ([CHR 0xE2, CHR 0x82, CHR 0x81], ''<sub>1</sub>''),
      ([CHR 0xE2, CHR 0x82, CHR 0x82], ''<sub>2</sub>''),
      ([CHR 0xE2, CHR 0x82, CHR 0x83], ''<sub>3</sub>''),
      ([CHR 0xE2, CHR 0x82, CHR 0x84], ''<sub>4</sub>''),
      ([CHR 0xE2, CHR 0x82, CHR 0x85], ''<sub>5</sub>''),
      ([CHR 0xE2, CHR 0x82, CHR 0x86], ''<sub>6</sub>''),
      ([CHR 0xE2, CHR 0x82, CHR 0x87], ''<sub>7</sub>''),
      ([CHR 0xE2, CHR 0x82, CHR 0x88], ''<sub>8</sub>''),
      ([CHR 0xE2, CHR 0x82, CHR 0x89], ''<sub>9</sub>''),
      ([CHR 0x60, CHR 0x60], ''&ldquo;''),
      ([CHR 0x27, CHR 0x27], ''&rdquo;'')]"

fun lookupOld :: "(string \<times> string) list \<Rightarrow> string \<Rightarrow> (string \<times> string) option" where
  "lookupOld [] s = None"
| "lookupOld ((old, new) # ps) s = (if HasPrefix s old then Some (old, new) else lookupOld ps s)"

fun Replace_from :: "(string \<times> string) list \<Rightarrow> nat \<Rightarrow> string \<Rightarrow> string" where
  "Replace_from tab skip [] = []"
| "Replace_from tab (Suc skip) (c # cs) = Replace_from tab skip cs"
| "Replace_from tab 0 (c # cs) =
     (case lookupOld tab (c # cs) of
        Some (old, new) \<Rightarrow> new @ Replace_from tab (length old - 1) cs
      | None \<Rightarrow> c # Replace_from tab 0 cs)"

definition Replace :: "string \<Rightarrow> string" where
  "Replace s = Replace_from replacer 0 s"

definition hostURL :: "Config \<Rightarrow> string \<Rightarrow> string" where
  "hostURL cfg host =
     (if Index host ''localhost'' \<noteq> None then ''http://localhost:8000'' else PublicURL cfg)"

text \<open>
  \<^verbatim>\<open>loadPost\<close>. The record it starts from has the name, the placeholder title (an
  inverted question mark, then \<^verbatim>\<open>Title?\<close>), the identifiers of the configuration and the
  host URL. A file that starts with an opening brace and a newline has a header, which
  ends with the first closing brace on a line of its own; the end missing and
  \<^verbatim>\<open>json.Unmarshal\<close> failing are panics, while a failed read is a returned error.
\<close>

definition newPostData :: "Env \<Rightarrow> Config \<Rightarrow> string \<Rightarrow> PostData" where
  "newPostData c cfg name =
     zeroPostData\<lparr>Name := name, Title := [CHR 0xC2, CHR 0xBF] @ ''Title?'',
                  PlusAuthor := PlusID cfg, PlusAPIKey := PlusKey cfg,
                  HostURL := hostURL cfg (Host c)\<rparr>"

definition loadPost :: "Env \<Rightarrow> Config \<Rightarrow> string \<Rightarrow> (PostData \<times> string) outcome" where
  "loadPost c cfg name =
     (let meta = newPostData c cfg name
      in case Read c name of
           None \<Rightarrow> ReturnErr (ReadError name)
         | Some (art, fi) \<Rightarrow>
             if HasPrefix art (''{'' @ [CHR 0x0A]) then
               (case Index art ([CHR 0x0A] @ ''}'' @ [CHR 0x0A]) of
                  None \<Rightarrow> Panic CannotFindEnd
                | Some i \<Rightarrow>
                    (case Unmarshal c (take (i + 3) art) meta of
                       Inl err \<Rightarrow> Panic (LoadingError name err)
                     | Inr meta' \<Rightarrow>
                         Return (meta'\<lparr>FileModTime := ModTime fi, FileSize := Size fi\<rparr>,
                                 Replace (drop (i + 3) art))))
             else Return (meta\<lparr>FileModTime := ModTime fi, FileSize := Size fi\<rparr>, Replace art))"

subsection \<open>Scanning the tree\<close>

text \<open>
  \<^verbatim>\<open>readDirEllipses\<close>. The inner loop goes through the children of one directory:
  a directory is pushed onto the queue under its full path, a file is appended to the
  result with its name replaced by the full path. The outer loop takes the front of the
  queue until the queue is empty; it need not end (the storage layer may report
  directories without end), so it is a partial function, \<open>None\<close> when it does not
  return. A failed listing returns the error and no files.
\<close>

fun scanChildren :: "(string \<Rightarrow> string \<Rightarrow> string) \<Rightarrow> string \<Rightarrow> FileInfo list \<Rightarrow>
    string list \<Rightarrow> FileInfo list \<Rightarrow> string list \<times> FileInfo list" where
  "scanChildren join rpath [] q r = (q, r)"
| "scanChildren join rpath (dir # children) q r =
     (let full = join rpath (FileInfo.Name dir)
      in if IsDir dir then scanChildren join rpath children (q @ [full]) r
         else scanChildren join rpath children q (r @ [dir\<lparr>FileInfo.Name := full\<rparr>]))"

partial_function (option) readDirLoop ::
    "Env \<Rightarrow> string list \<Rightarrow> FileInfo list \<Rightarrow> (error + FileInfo list) option" where
  "readDirLoop c q r =
     (case q of
        [] \<Rightarrow> Some (Inr r)
      | rpath # q' \<Rightarrow>
          (case ReadDir c rpath of
             None \<Rightarrow> Some (Inl (ReadError rpath))
           | Some children \<Rightarrow>
               readDirLoop c (fst (scanChildren (Join c) rpath children q' r))
                             (snd (scanChildren (Join c) rpath children q' r))))"

definition readDirEllipses :: "Env \<Rightarrow> string \<Rightarrow> (error + FileInfo list) option" where
  "readDirEllipses c root = readDirLoop c [root] []"

subsection \<open>The Atom feed\<close>

text \<open>\<^verbatim>\<open>byTime.Less\<close>, on the two elements it compares.\<close>

definition byTime_Less :: "PostData \<Rightarrow> PostData \<Rightarrow> bool" where
  "byTime_Less a b = After (Date a) (Date b)"

text \<open>
  The first loop of \<^verbatim>\<open>atomfeed\<close>: every listed entry is loaded under the name the
  listing gives it; an error and a panic of \<^verbatim>\<open>loadPost\<close> both end in a panic (\<open>Inl\<close>);
  drafts are skipped.
\<close>

fun loadAll :: "Env \<Rightarrow> Config \<Rightarrow> FileInfo list \<Rightarrow> PostData list \<Rightarrow> error + PostData list" where
  "loadAll c cfg [] all = Inr all"
| "loadAll c cfg (d # dir) all =
     (case loadPost c cfg (FileInfo.Name d) of
        ReturnErr err \<Rightarrow> Inl err
      | Panic e \<Rightarrow> Inl e
      | Return (meta, art) \<Rightarrow>
          if IsDraft (Now c) meta then loadAll c cfg dir all
          else loadAll c cfg dir (all @ [meta\<lparr>article := art\<rparr>]))"

text \<open>
  The selection. \<^verbatim>\<open>show = show[:10]\<close> shares the array of \<^verbatim>\<open>all\<close>, and its capacity is
  that of \<^verbatim>\<open>all\<close>, so every \<^verbatim>\<open>append(show, meta)\<close> writes into that array, at the index
  that is the length of \<^verbatim>\<open>show\<close>, while the loop still reads \<^verbatim>\<open>all[10:]\<close> from the same
  array. \<open>appendFavorites k i arr n\<close> runs the \<open>k\<close> iterations left: \<open>arr\<close> is the shared
  array, \<open>i\<close> the index the loop reads next and \<open>n\<close> the length of \<^verbatim>\<open>show\<close>.
\<close>

fun appendFavorites :: "nat \<Rightarrow> nat \<Rightarrow> PostData list \<Rightarrow> nat \<Rightarrow> PostData list \<times> nat" where
  "appendFavorites 0 i arr n = (arr, n)"
| "appendFavorites (Suc k) i arr n =
     (let meta = arr ! i
      in if Favorite meta then appendFavorites k (Suc i) (arr[n := meta]) (Suc n)
         else appendFavorites k (Suc i) arr n)"

definition feedShow :: "PostData list \<Rightarrow> PostData list" where
  "feedShow all =
     (if length all > 10
      then (case appendFavorites (length all - 10) 10 all 10 of (arr, n) \<Rightarrow> take n arr)
      else all)"

text \<open>
  The second loop: for every shown post the template \<^verbatim>\<open>blog/atom.html\<close> is read and
  executed; each failure is a panic.
\<close>

fun feedEntries :: "Env \<Rightarrow> string \<Rightarrow> PostData list \<Rightarrow> AtomEntry list \<Rightarrow> error + AtomEntry list" where
  "feedEntries c fid [] es = Inr es"
| "feedEntries c fid (meta # show) es =
     (case Read c ''blog/atom.html'' of
        None \<Rightarrow> Inl (ReadError ''blog/atom.html'')
      | Some (main, _) \<Rightarrow>
          (case Execute c main meta of
             Inl err \<Rightarrow> Inl (ExecuteError err)
           | Inr body \<Rightarrow>
               feedEntries c fid show
                 (es @ [\<lparr>entry_Title = Title meta,
                          entry_ID = fid @ ''/'' @ Name meta,
                          entry_Link = HostURL meta @ ''/'' @ Name meta,
                          entry_Published = Date meta,
                          entry_Updated = Date meta,
                          entry_Summary = Summary meta,
                          entry_Content = body\<rparr>])))"

text \<open>
  \<^verbatim>\<open>atomfeed\<close> when the output cache has no feed: \<open>Inl e\<close> is a panic with \<open>e\<close>, \<open>Inr\<close>
  the encoded feed, which is stored in the output cache and written. \<^verbatim>\<open>show[0]\<close> is read
  when the feed value is built, before the entries are.
\<close>

definition atomfeed :: "Env \<Rightarrow> Config \<Rightarrow> error + string" where
  "atomfeed c cfg =
     (case ReadDir c ''blog/post'' of
        None \<Rightarrow> Inl (ReadError ''blog/post'')
      | Some dir \<Rightarrow>
          (case loadAll c cfg dir [] of
             Inl e \<Rightarrow> Inl e
           | Inr loaded \<Rightarrow>
               (let all = Sort c byTime_Less loaded; show = feedShow all
                in case show of
                     [] \<Rightarrow> Inl IndexOutOfRange
                   | first # _ \<Rightarrow>
                       (case feedEntries c (FeedID cfg) show [] of
                          Inl e \<Rightarrow> Inl e
                        | Inr es \<Rightarrow>
                            (case Marshal c
                                    \<lparr>feed_Title = FeedTitle cfg,
                                     feed_ID = FeedID cfg,
                                     feed_Updated = Date first,
                                     feed_AuthorName = cfgName cfg,
                                     feed_AuthorURI = ''https://plus.google.com/'' @ PlusID cfg,
                                     feed_AuthorEmail = Email cfg,
                                     feed_Link = hostURL cfg (Host c) @ ''/feed.atom'',
                                     feed_Entry = es\<rparr> of
                               Inl err \<Rightarrow> Inl (MarshalError err)
                             | Inr data \<Rightarrow> Inr data)))))"

subsection \<open>Refreshing the table of contents\<close>

text \<open>
  \<^verbatim>\<open>gentoc\<close> reads the snapshot \<^verbatim>\<open>blogcache\<close> into the map \<^verbatim>\<open>postCache\<close>: the empty map
  when the file cannot be read, else whatever \<^verbatim>\<open>json.Unmarshal\<close> left in the map (its
  error is logged only). A Go map of pointers gives nil for a missing key and for a key
  bound to nil alike; both are \<open>None\<close> here.
\<close>

definition loadCache :: "Env \<Rightarrow> (string \<rightharpoonup> PostData)" where
  "loadCache c =
     (case Read c ''blogcache'' of
        None \<Rightarrow> Map.empty
      | Some (data, _) \<Rightarrow> fst (UnmarshalCache c data))"

definition par :: nat where
  "par = 20"

text \<open>
  The test of the dispatch loop: the cached entry of the item \<open>d\<close> when it is used
  as it is, \<open>None\<close> when the post is loaded again.
\<close>

definition cacheHit :: "(string \<rightharpoonup> PostData) \<Rightarrow> FileInfo \<Rightarrow> PostData option" where
  "cacheHit postCache d =
     (case postCache (FileInfo.Name d) of
        None \<Rightarrow> None
      | Some meta \<Rightarrow>
          if Equal (FileModTime meta) (ModTime d) \<and> FileSize meta = Size d then Some meta
          else None)"

text \<open>
  What a goroutine started by the dispatch loop does with the item \<open>d\<close>, without the
  article, which it drops.
\<close>

definition loadMeta :: "Env \<Rightarrow> Config \<Rightarrow> FileInfo \<Rightarrow> PostData outcome" where
  "loadMeta c cfg d =
     (case loadPost c cfg (FileInfo.Name d) of
        Return (meta, art) \<Rightarrow> Return meta
      | ReturnErr err \<Rightarrow> ReturnErr err
      | Panic e \<Rightarrow> Panic e)"

text \<open>
  The concurrent part of \<^verbatim>\<open>gentoc\<close>, from the dispatch loop to \<^verbatim>\<open>close(ch)\<close>, is a
  transition system whose steps are the actions of the main flow and of the goroutines,
  interleaved in any order. A goroutine is in one of four places: in \<^verbatim>\<open>loadPost\<close>; at the
  send \<^verbatim>\<open>ch <- meta\<close>; before its deferred \<^verbatim>\<open>limit <- true\<close> on a normal return; before the
  same deferred call while a panic of \<^verbatim>\<open>loadPost\<close> unwinds it.
\<close>

datatype worker = Loading FileInfo | Sending PostData | Deferred | Panicking error

text \<open>
  The state: \<open>todo\<close> is what the dispatch loop has still to range over; \<open>limit\<close> the number
  of values in the channel \<^verbatim>\<open>limit\<close>, whose capacity is \<open>par\<close>; \<open>workers\<close> the goroutines
  that have not yet made their deferred send; \<open>ch\<close> the values in the channel \<^verbatim>\<open>ch\<close>, whose
  capacity is the number of scanned items; \<open>waited\<close> the counter of the loop that waits
  for the loads; \<open>closed\<close> whether \<^verbatim>\<open>ch\<close> is closed; \<open>logged\<close> the errors written to
  the log; \<open>fatal\<close> the panics that have left their goroutine, each of which ends the
  process; \<open>crashed\<close> whether the process has ended so. The counters \<open>acquired\<close> and
  \<open>released\<close> are not in the program: they count the receives from \<^verbatim>\<open>limit\<close> in the
  dispatch loop and the deferred sends to it.
\<close>

record refresh =
  todo :: "FileInfo list"
  limit :: nat
  workers :: "worker multiset"
  ch :: "PostData list"
  waited :: nat
  closed :: bool
  logged :: "error list"
  fatal :: "error list"
  crashed :: bool
  acquired :: nat
  released :: nat

text \<open>The state before the dispatch loop: the channel \<^verbatim>\<open>limit\<close> has been filled.\<close>

definition start :: "FileInfo list \<Rightarrow> refresh" where
  "start dir =
     \<lparr>todo = dir, limit = par, workers = {#}, ch = [], waited = 0, closed = False,
      logged = [], fatal = [], crashed = False, acquired = 0, released = 0\<rparr>"

text \<open>
  The steps, for the loaded cache \<open>postCache\<close>, the outcome \<open>load d\<close> of \<^verbatim>\<open>loadPost\<close> on
  each item and the capacity \<open>cap\<close> of \<^verbatim>\<open>ch\<close>. A send needs room in its channel and a
  receive a value, else the flow waits.
  \<^item> \<open>hit\<close>: the dispatch loop sends the cached entry of the next item and continues.
  \<^item> \<open>spawn\<close>: the dispatch loop receives from \<^verbatim>\<open>limit\<close> and starts a goroutine for the
    next item.
  \<^item> \<open>loaded\<close>, \<open>failed\<close>, \<open>panicked\<close>: \<^verbatim>\<open>loadPost\<close> ends in a goroutine; a returned
    error is logged and the goroutine returns.
  \<^item> \<open>send\<close>: a goroutine sends its post to \<^verbatim>\<open>ch\<close> and returns.
  \<^item> \<open>release\<close>: the deferred call of a returning goroutine sends to \<^verbatim>\<open>limit\<close>.
  \<^item> \<open>unwind\<close>: the deferred call of a panicking goroutine sends to \<^verbatim>\<open>limit\<close>; the panic
    then leaves the goroutine, where nothing recovers it.
  \<^item> \<open>abort\<close>: the run-time system ends the process for such a panic.
  \<^item> \<open>wait\<close>: after the dispatch loop, the main flow receives from \<^verbatim>\<open>limit\<close>, \<open>par\<close>
    times.
  \<^item> \<open>close\<close>: it then closes \<^verbatim>\<open>ch\<close>.
\<close>

inductive step :: "(string \<rightharpoonup> PostData) \<Rightarrow> (FileInfo \<Rightarrow> PostData outcome) \<Rightarrow> nat \<Rightarrow>
    refresh \<Rightarrow> refresh \<Rightarrow> bool"
  for postCache :: "string \<rightharpoonup> PostData" and load :: "FileInfo \<Rightarrow> PostData outcome" and cap :: nat
where
  hit: "\<not> crashed s \<Longrightarrow> todo s = d # ds \<Longrightarrow> cacheHit postCache d = Some meta \<Longrightarrow>
        length (ch s) < cap \<Longrightarrow>
        step postCache load cap s (s\<lparr>todo := ds, ch := ch s @ [meta]\<rparr>)"
| spawn: "\<not> crashed s \<Longrightarrow> todo s = d # ds \<Longrightarrow> cacheHit postCache d = None \<Longrightarrow>
        0 < limit s \<Longrightarrow>
        step postCache load cap s
          (s\<lparr>todo := ds, limit := limit s - 1, workers := add_mset (Loading d) (workers s),
             acquired := Suc (acquired s)\<rparr>)"
| loaded: "\<not> crashed s \<Longrightarrow> Loading d \<in># workers s \<Longrightarrow> load d = Return meta \<Longrightarrow>
        step postCache load cap s
          (s\<lparr>workers := add_mset (Sending meta) (workers s - {#Loading d#})\<rparr>)"
| failed: "\<not> crashed s \<Longrightarrow> Loading d \<in># workers s \<Longrightarrow> load d = ReturnErr err \<Longrightarrow>
        step postCache load cap s
          (s\<lparr>workers := add_mset Deferred (workers s - {#Loading d#}),
             logged := logged s @ [err]\<rparr>)"
| panicked: "\<not> crashed s \<Longrightarrow> Loading d \<in># workers s \<Longrightarrow> load d = Panic e \<Longrightarrow>
        step postCache load cap s
          (s\<lparr>workers := add_mset (Panicking e) (workers s - {#Loading d#})\<rparr>)"
| send: "\<not> crashed s \<Longrightarrow> Sending meta \<in># workers s \<Longrightarrow> length (ch s) < cap \<Longrightarrow>
        step postCache load cap s
          (s\<lparr>workers := add_mset Deferred (workers s - {#Sending meta#}),
             ch := ch s @ [meta]\<rparr>)"
| release: "\<not> crashed s \<Longrightarrow> Deferred \<in># workers s \<Longrightarrow> limit s < par \<Longrightarrow>
        step postCache load cap s
          (s\<lparr>workers := workers s - {#Deferred#}, limit := Suc (limit s),
             released := Suc (released s)\<rparr>)"
| unwind: "\<not> crashed s \<Longrightarrow> Panicking e \<in># workers s \<Longrightarrow> limit s < par \<Longrightarrow>
        step postCache load cap s
          (s\<lparr>workers := workers s - {#Panicking e#}, limit := Suc (limit s),
             released := Suc (released s), fatal := fatal s @ [e]\<rparr>)"
| abort: "\<not> crashed s \<Longrightarrow> fatal s \<noteq> [] \<Longrightarrow>
        step postCache load cap s (s\<lparr>crashed := True\<rparr>)"
| wait: "\<not> crashed s \<Longrightarrow> \<not> closed s \<Longrightarrow> todo s = [] \<Longrightarrow> waited s < par \<Longrightarrow> 0 < limit s \<Longrightarrow>
        step postCache load cap s (s\<lparr>limit := limit s - 1, waited := Suc (waited s)\<rparr>)"
| close: "\<not> crashed s \<Longrightarrow> \<not> closed s \<Longrightarrow> todo s = [] \<Longrightarrow> waited s = par \<Longrightarrow>
        step postCache load cap s (s\<lparr>closed := True\<rparr>)"

code_pred step .

text \<open>The states a refresh of the scanned items \<open>dir\<close> can be in.\<close>

definition reach :: "(string \<rightharpoonup> PostData) \<Rightarrow> (FileInfo \<Rightarrow> PostData outcome) \<Rightarrow>
    FileInfo list \<Rightarrow> refresh \<Rightarrow> bool" where
  "reach postCache load dir s = (step postCache load (length dir))\<^sup>*\<^sup>* (start dir) s"

text \<open>
  The loop over the closed channel: every received post is stored in the new map under
  its own \<open>Name\<close>, and appended to the listing when the filter admits it.
\<close>

fun collect :: "bool \<Rightarrow> bool \<Rightarrow> string \<Rightarrow> Time \<Rightarrow> PostData list \<Rightarrow>
    (string \<rightharpoonup> PostData) \<Rightarrow> PostData list \<Rightarrow> (string \<rightharpoonup> PostData) \<times> PostData list" where
  "collect draft isOwner user now [] postCache all = (postCache, all)"
| "collect draft isOwner user now (meta # rest) postCache all =
     collect draft isOwner user now rest (postCache(Name meta \<mapsto> meta))
       (if inTOC draft isOwner user now meta then all @ [meta] else all)"

text \<open>
  The rest of \<^verbatim>\<open>gentoc\<close> from the posts received: the new map \<^verbatim>\<open>postCache\<close> and the data
  the template \<^verbatim>\<open>toc\<close> is executed on. \<^verbatim>\<open>c.User()\<close> is the caller, whom \<^verbatim>\<open>serve\<close> also
  passes as \<^verbatim>\<open>user\<close>.
\<close>

definition assemble :: "Env \<Rightarrow> Config \<Rightarrow> bool \<Rightarrow> bool \<Rightarrow> string \<Rightarrow> PostData list \<Rightarrow>
    (string \<rightharpoonup> PostData) \<times> TocData" where
  "assemble c cfg draft isOwner user received =
     (case collect draft isOwner user (Now c) received Map.empty [] of
        (postCache, all) \<Rightarrow>
          (postCache,
           \<lparr>toc_User = user, toc_Draft = draft, toc_HostURL = hostURL cfg (Host c),
            DraftRoot = ''/draft'', PostRoot = ''/'', Posts = Sort c byTime_Less all\<rparr>))"

text \<open>
  The new map is encoded and the bytes are written to \<^verbatim>\<open>blogcache\<close>. When
  \<^verbatim>\<open>json.Marshal\<close> or \<^verbatim>\<open>c.Write\<close> fails, the error is logged, nothing is written, and the
  pass goes on: \<open>Inl\<close> is the error logged, \<open>Inr\<close> the bytes now in the file.
\<close>

definition writeCache :: "Env \<Rightarrow> (string \<rightharpoonup> PostData) \<Rightarrow> error + string" where
  "writeCache c postCache =
     (case MarshalCache c postCache of
        Inl err \<Rightarrow> Inl (MarshalError err)
      | Inr data \<Rightarrow>
          (case Write c ''blogcache'' data of
             Some err \<Rightarrow> Inl (WriteError err)
           | None \<Rightarrow> Inr data))"

text \<open>
  \<^verbatim>\<open>mainTemplate\<close> reads \<^verbatim>\<open>blog/main.html\<close>, which must be there, and appends
  \<^verbatim>\<open>blog/style.html\<close> if it can be read; \<open>render\<close> is the rest of \<^verbatim>\<open>gentoc\<close>, which
  executes the template and panics if that fails.
\<close>

definition mainTemplate :: "Env \<Rightarrow> error + string" where
  "mainTemplate c =
     (case Read c ''blog/main.html'' of
        None \<Rightarrow> Inl (ReadError ''blog/main.html'')
      | Some (main, _) \<Rightarrow>
          Inr (main @ (case Read c ''blog/style.html'' of None \<Rightarrow> [] | Some (style, _) \<Rightarrow> style)))"

definition render :: "Env \<Rightarrow> TocData \<Rightarrow> error + string" where
  "render c toc =
     (case mainTemplate c of
        Inl e \<Rightarrow> Inl e
      | Inr main \<Rightarrow>
          (case ExecuteTOC c main toc of
             Inl err \<Rightarrow> Inl (ExecuteError err)
           | Inr data \<Rightarrow> Inr data))"

text \<open>
  \<^verbatim>\<open>gentoc\<close> as a whole, a relation since the goroutines interleave: it panics when the
  scan fails; it prints the number of scanned entries when the form value \<^verbatim>\<open>readdir\<close> is
  \<^verbatim>\<open>1\<close>; else it refreshes, and either a panic in a goroutine ends the process, or
  the channel is closed, the new map is assembled, its encoding is written to
  \<^verbatim>\<open>blogcache\<close> or the failure to do so is logged, and the page is rendered, stored in the
  output cache and written, unless rendering panics. A result carries the new map and
  what \<open>writeCache\<close> did with it. \<open>written\<close> is the map whose encoding a pass has put
  into \<^verbatim>\<open>blogcache\<close>; it is \<open>None\<close> when the pass has left the file as it was.
\<close>

datatype gentoc_result =
    Panicked error
  | DirEntries nat
  | Page "string \<rightharpoonup> PostData" "error + string" TocData string
  | RenderPanicked "string \<rightharpoonup> PostData" "error + string" error
  | Crashed "error list"

fun written :: "gentoc_result \<Rightarrow> (string \<rightharpoonup> PostData) option" where
  "written (Panicked e) = None"
| "written (DirEntries n) = None"
| "written (Page postCache (Inr bytes) toc data) = Some postCache"
| "written (Page postCache (Inl err) toc data) = None"
| "written (RenderPanicked postCache (Inr bytes) e) = Some postCache"
| "written (RenderPanicked postCache (Inl err) e) = None"
| "written (Crashed es) = None"

inductive gentoc :: "Env \<Rightarrow> Config \<Rightarrow> string \<Rightarrow> bool \<Rightarrow> bool \<Rightarrow> string \<Rightarrow> gentoc_result \<Rightarrow> bool"
  for c :: Env and cfg :: Config and readdir :: string and draft :: bool and isOwner :: bool
    and user :: string
where
  scan_failed: "readDirEllipses c ''blog/post'' = Some (Inl err) \<Longrightarrow>
       gentoc c cfg readdir draft isOwner user (Panicked err)"
| dir_entries: "readDirEllipses c ''blog/post'' = Some (Inr dir) \<Longrightarrow> readdir = ''1'' \<Longrightarrow>
       gentoc c cfg readdir draft isOwner user (DirEntries (length dir))"
| page: "readDirEllipses c ''blog/post'' = Some (Inr dir) \<Longrightarrow> readdir \<noteq> ''1'' \<Longrightarrow>
       reach (loadCache c) (loadMeta c cfg) dir s \<Longrightarrow> closed s \<Longrightarrow> \<not> crashed s \<Longrightarrow>
       assemble c cfg draft isOwner user (ch s) = (postCache, toc) \<Longrightarrow>
       render c toc = Inr data \<Longrightarrow>
       gentoc c cfg readdir draft isOwner user (Page postCache (writeCache c postCache) toc data)"
| render_failed: "readDirEllipses c ''blog/post'' = Some (Inr dir) \<Longrightarrow> readdir \<noteq> ''1'' \<Longrightarrow>
       reach (loadCache c) (loadMeta c cfg) dir s \<Longrightarrow> closed s \<Longrightarrow> \<not> crashed s \<Longrightarrow>
       assemble c cfg draft isOwner user (ch s) = (postCache, toc) \<Longrightarrow>
       render c toc = Inl e \<Longrightarrow>
       gentoc c cfg readdir draft isOwner user (RenderPanicked postCache (writeCache c postCache) e)"
| crash: "readDirEllipses c ''blog/post'' = Some (Inr dir) \<Longrightarrow> readdir \<noteq> ''1'' \<Longrightarrow>
       reach (loadCache c) (loadMeta c cfg) dir s \<Longrightarrow> crashed s \<Longrightarrow>
       gentoc c cfg readdir draft isOwner user (Crashed (fatal s))"

section \<open>Notions of the statements\<close>

text \<open>
  An item is stale when the dispatch loop does not use a cached entry for it. The record
  a pass resolves for an item is the cached entry on a hit and the loaded post of a stale
  item; a stale item whose load returns an error has a failure instead. \<open>resolved\<close> and
  \<open>failures\<close> collect them over a list of items, as multisets.
\<close>

definition stale :: "(string \<rightharpoonup> PostData) \<Rightarrow> FileInfo \<Rightarrow> bool" where
  "stale postCache d = (cacheHit postCache d = None)"

definition resolve :: "(string \<rightharpoonup> PostData) \<Rightarrow> (FileInfo \<Rightarrow> PostData outcome) \<Rightarrow> FileInfo \<Rightarrow> PostData option" where
  "resolve postCache load d =
     (case cacheHit postCache d of
        Some meta \<Rightarrow> Some meta
      | None \<Rightarrow> (case load d of Return meta \<Rightarrow> Some meta | ReturnErr err \<Rightarrow> None | Panic e \<Rightarrow> None))"

definition resolved :: "(string \<rightharpoonup> PostData) \<Rightarrow> (FileInfo \<Rightarrow> PostData outcome) \<Rightarrow> FileInfo list \<Rightarrow> PostData multiset" where
  "resolved postCache load ds = mset (List.map_filter (resolve postCache load) ds)"

definition failure :: "(string \<rightharpoonup> PostData) \<Rightarrow> (FileInfo \<Rightarrow> PostData outcome) \<Rightarrow> FileInfo \<Rightarrow> error option" where
  "failure postCache load d =
     (case cacheHit postCache d of
        Some meta \<Rightarrow> None
      | None \<Rightarrow> (case load d of Return meta \<Rightarrow> None | ReturnErr err \<Rightarrow> Some err | Panic e \<Rightarrow> None))"

definition failures :: "(string \<rightharpoonup> PostData) \<Rightarrow> (FileInfo \<Rightarrow> PostData outcome) \<Rightarrow> FileInfo list \<Rightarrow> error multiset" where
  "failures postCache load ds = mset (List.map_filter (failure postCache load) ds)"

text \<open>
  The variant of the refresh: every step makes \<open>rank\<close> smaller.
\<close>

fun weight :: "worker \<Rightarrow> nat" where
  "weight (Loading d) = 3"
| "weight (Sending meta) = 2"
| "weight Deferred = 1"
| "weight (Panicking e) = 1"

definition rank :: "refresh \<Rightarrow> nat" where
  "rank s = 4 * length (todo s) + sum_mset (image_mset weight (workers s)) + (par - waited s)
            + (if closed s then 0 else 1) + (if crashed s then 0 else 1)"

text \<open>
  The invariants of the refresh. The permits: those in the channel, those held by
  goroutines and those the wait loop took back are \<open>par\<close> together. The posts: what is
  in \<^verbatim>\<open>ch\<close>, what the goroutines will still send and what the items to come resolve to
  is what all items resolve to; likewise for the log. The room in \<^verbatim>\<open>ch\<close>: the posts in
  it, the goroutines that may still send and the items to come are no more than its
  capacity. The origin of goroutines and panics: they come from stale scanned items.
\<close>

definition permits_inv :: "refresh \<Rightarrow> bool" where
  "permits_inv s = (limit s + size (workers s) + waited s = par \<and>
                    acquired s = released s + size (workers s) \<and>
                    (todo s \<noteq> [] \<longrightarrow> waited s = 0) \<and>
                    (closed s \<longrightarrow> todo s = [] \<and> waited s = par))"

fun pending :: "(FileInfo \<Rightarrow> PostData outcome) \<Rightarrow> worker \<Rightarrow> PostData multiset" where
  "pending load (Loading d) = (case load d of Return meta \<Rightarrow> {#meta#} | ReturnErr err \<Rightarrow> {#} | Panic e \<Rightarrow> {#})"
| "pending load (Sending meta) = {#meta#}"
| "pending load Deferred = {#}"
| "pending load (Panicking e) = {#}"

definition content_inv :: "(string \<rightharpoonup> PostData) \<Rightarrow> (FileInfo \<Rightarrow> PostData outcome) \<Rightarrow> FileInfo list \<Rightarrow> refresh \<Rightarrow> bool" where
  "content_inv postCache load dir s =
     (mset (ch s) + sum_mset (image_mset (pending load) (workers s)) + resolved postCache load (todo s)
        = resolved postCache load dir)"

fun failing :: "(FileInfo \<Rightarrow> PostData outcome) \<Rightarrow> worker \<Rightarrow> error multiset" where
  "failing load (Loading d) = (case load d of Return meta \<Rightarrow> {#} | ReturnErr err \<Rightarrow> {#err#} | Panic e \<Rightarrow> {#})"
| "failing load (Sending meta) = {#}"
| "failing load Deferred = {#}"
| "failing load (Panicking e) = {#}"

definition logged_inv :: "(string \<rightharpoonup> PostData) \<Rightarrow> (FileInfo \<Rightarrow> PostData outcome) \<Rightarrow> FileInfo list \<Rightarrow> refresh \<Rightarrow> bool" where
  "logged_inv postCache load dir s =
     (mset (logged s) + sum_mset (image_mset (failing load) (workers s)) + failures postCache load (todo s)
        = failures postCache load dir)"

fun sender :: "worker \<Rightarrow> bool" where
  "sender (Loading d) = True"
| "sender (Sending meta) = True"
| "sender Deferred = False"
| "sender (Panicking e) = False"

definition capacity_inv :: "nat \<Rightarrow> refresh \<Rightarrow> bool" where
  "capacity_inv cap s = (length (ch s) + size (filter_mset sender (workers s)) + length (todo s) \<le> cap)"

definition origin_inv :: "(string \<rightharpoonup> PostData) \<Rightarrow> (FileInfo \<Rightarrow> PostData outcome) \<Rightarrow> FileInfo list \<Rightarrow> refresh \<Rightarrow> bool" where
  "origin_inv postCache load dir s =
     (set (todo s) \<subseteq> set dir \<and>
      (\<forall>d. Loading d \<in># workers s \<longrightarrow> d \<in> set dir \<and> stale postCache d) \<and>
      (\<forall>e. Panicking e \<in># workers s \<longrightarrow> (\<exists>d\<in>set dir. stale postCache d \<and> load d = Panic e)) \<and>
      (\<forall>e\<in>set (fatal s). \<exists>d\<in>set dir. stale postCache d \<and> load d = Panic e) \<and>
      (crashed s \<longrightarrow> fatal s \<noteq> []) \<and>
      acquired s + length (filter (stale postCache) (todo s)) = length (filter (stale postCache) dir))"

text \<open>
  What the documentation of \<^verbatim>\<open>sort.Sort\<close> promises of a sort by \<^verbatim>\<open>byTime\<close>: the same
  elements, and no element before one that \<^verbatim>\<open>Less\<close> puts before it. It promises no
  order among elements that \<^verbatim>\<open>Less\<close> does not tell apart (the sort need not be stable).
\<close>

definition sort_contract :: "((PostData \<Rightarrow> PostData \<Rightarrow> bool) \<Rightarrow> PostData list \<Rightarrow> PostData list) \<Rightarrow> bool" where
  "sort_contract srt =
     (\<forall>xs. mset (srt byTime_Less xs) = mset xs \<and>
           sorted_wrt (\<lambda>a b. \<not> byTime_Less b a) (srt byTime_Less xs))"

section \<open>The sort of the Go library\<close>

text \<open>
  \<^verbatim>\<open>sort.Sort\<close> sorts through the three methods of \<^verbatim>\<open>byTime\<close>. Which of two posts of one
  date comes first is decided by its algorithm alone, so the algorithm is embedded here,
  as the Go library has it since release 1.19 (pattern-defeating quicksort): \<^verbatim>\<open>Sort\<close>,
  \<^verbatim>\<open>pdqsort\<close> and the functions \<^verbatim>\<open>pdqsort\<close> calls. The slice is a list, an index a Go
  \<^verbatim>\<open>int\<close>; \<open>Less lt data i j\<close> and \<open>Swap data i j\<close> are the methods \<^verbatim>\<open>Less\<close> and \<^verbatim>\<open>Swap\<close>
  of the slice, of which \<open>lt\<close> compares two elements. A function that changes the slice
  returns the new slice. The two fallbacks of \<^verbatim>\<open>pdqsort\<close> are parameters: \<^verbatim>\<open>heapSort\<close>,
  which it calls when too many partitions were unbalanced, and \<^verbatim>\<open>breakPatterns\<close>, which
  it calls after an unbalanced partition and which moves three elements to places that
  a pseudo-random generator chooses.
\<close>

definition Less :: "('a \<Rightarrow> 'a \<Rightarrow> bool) \<Rightarrow> 'a list \<Rightarrow> int \<Rightarrow> int \<Rightarrow> bool" where
  "Less lt data i j = lt (data ! nat i) (data ! nat j)"

definition Swap :: "'a list \<Rightarrow> int \<Rightarrow> int \<Rightarrow> 'a list" where
  "Swap data i j = data[nat i := data ! nat j, nat j := data ! nat i]"

text \<open>
  \<^verbatim>\<open>insertionSort\<close> on \<^verbatim>\<open>data[a:b]\<close>: the inner loop moves the element at \<open>j\<close> down while
  it is less than the one before it; the outer loop does so for every \<open>i\<close> from \<open>a + 1\<close>.
\<close>

function insertionInner :: "('a \<Rightarrow> 'a \<Rightarrow> bool) \<Rightarrow> 'a list \<Rightarrow> int \<Rightarrow> int \<Rightarrow> 'a list" where
  "insertionInner lt data a j =
     (if j > a \<and> Less lt data j (j - 1) then insertionInner lt (Swap data j (j - 1)) a (j - 1)
      else data)"
  by pat_completeness auto
termination
  by (relation "measure (\<lambda>(lt, data, a, j). nat (j - a))") auto

declare insertionInner.simps [simp del]

function insertionOuter :: "('a \<Rightarrow> 'a \<Rightarrow> bool) \<Rightarrow> 'a list \<Rightarrow> int \<Rightarrow> int \<Rightarrow> int \<Rightarrow> 'a list" where
  "insertionOuter lt data a i b =
     (if i < b then insertionOuter lt (insertionInner lt data a i) a (i + 1) b else data)"
  by pat_completeness auto
termination
  by (relation "measure (\<lambda>(lt, data, a, i, b). nat (b - i))") auto

declare insertionOuter.simps [simp del]

definition insertionSortGo :: "('a \<Rightarrow> 'a \<Rightarrow> bool) \<Rightarrow> 'a list \<Rightarrow> int \<Rightarrow> int \<Rightarrow> 'a list" where
  "insertionSortGo lt data a b = insertionOuter lt data a (a + 1) b"

text \<open>
  \<^verbatim>\<open>choosePivot\<close>: the median of three elements, of three medians of adjacent elements
  when the range has 50 elements or more; the hint tells whether the elements looked at
  were found in order (no swap) or in reverse order (12 swaps). \<open>swaps\<close> is the counter
  that \<^verbatim>\<open>order2\<close> increments through its pointer.
\<close>

datatype sortedHint = unknownHint | increasingHint | decreasingHint

definition order2 :: "('a \<Rightarrow> 'a \<Rightarrow> bool) \<Rightarrow> 'a list \<Rightarrow> int \<Rightarrow> int \<Rightarrow> nat \<Rightarrow> int \<times> int \<times> nat" where
  "order2 lt data a b swaps = (if Less lt data b a then (b, a, swaps + 1) else (a, b, swaps))"

definition median :: "('a \<Rightarrow> 'a \<Rightarrow> bool) \<Rightarrow> 'a list \<Rightarrow> int \<Rightarrow> int \<Rightarrow> int \<Rightarrow> nat \<Rightarrow> int \<times> nat" where
  "median lt data a b c swaps =
     (case order2 lt data a b swaps of (a, b, swaps) \<Rightarrow>
      case order2 lt data b c swaps of (b, c, swaps) \<Rightarrow>
      case order2 lt data a b swaps of (a, b, swaps) \<Rightarrow> (b, swaps))"

definition medianAdjacent :: "('a \<Rightarrow> 'a \<Rightarrow> bool) \<Rightarrow> 'a list \<Rightarrow> int \<Rightarrow> nat \<Rightarrow> int \<times> nat" where
  "medianAdjacent lt data a swaps = median lt data (a - 1) a (a + 1) swaps"

definition choosePivot :: "('a \<Rightarrow> 'a \<Rightarrow> bool) \<Rightarrow> 'a list \<Rightarrow> int \<Rightarrow> int \<Rightarrow> int \<times> sortedHint" where
  "choosePivot lt data a b =
     (let l = b - a; i = a + l div 4 * 1; j = a + l div 4 * 2; k = a + l div 4 * 3
      in case (if l \<ge> 8
               then (case (if l \<ge> 50
                           then (case medianAdjacent lt data i 0 of (i, swaps) \<Rightarrow>
                                 case medianAdjacent lt data j swaps of (j, swaps) \<Rightarrow>
                                 case medianAdjacent lt data k swaps of (k, swaps) \<Rightarrow> (i, j, k, swaps))
                           else (i, j, k, 0)) of
                       (i, j, k, swaps) \<Rightarrow> median lt data i j k swaps)
               else (j, 0)) of
           (j, swaps) \<Rightarrow>
             if swaps = 0 then (j, increasingHint)
             else if swaps = 12 then (j, decreasingHint)
             else (j, unknownHint))"

function reverseLoop :: "'a list \<Rightarrow> int \<Rightarrow> int \<Rightarrow> 'a list" where
  "reverseLoop data i j = (if i < j then reverseLoop (Swap data i j) (i + 1) (j - 1) else data)"
  by pat_completeness auto
termination
  by (relation "measure (\<lambda>(data, i, j). nat (j - i))") auto

declare reverseLoop.simps [simp del]

definition reverseRange :: "'a list \<Rightarrow> int \<Rightarrow> int \<Rightarrow> 'a list" where
  "reverseRange data a b = reverseLoop data a (b - 1)"

text \<open>
  \<^verbatim>\<open>partialInsertionSort\<close>: up to five times, it skips the elements that are in order; at
  the end of the range the slice is sorted (\<open>True\<close>); in a range of fewer than 50 elements
  it gives up (\<open>False\<close>); else it swaps the pair out of order and shifts the smaller
  element to the left and the greater one to the right.
\<close>

function skipSorted :: "('a \<Rightarrow> 'a \<Rightarrow> bool) \<Rightarrow> 'a list \<Rightarrow> int \<Rightarrow> int \<Rightarrow> int" where
  "skipSorted lt data i b =
     (if i < b \<and> \<not> Less lt data i (i - 1) then skipSorted lt data (i + 1) b else i)"
  by pat_completeness auto
termination
  by (relation "measure (\<lambda>(lt, data, i, b). nat (b - i))") auto

declare skipSorted.simps [simp del]

function shiftLeft :: "('a \<Rightarrow> 'a \<Rightarrow> bool) \<Rightarrow> 'a list \<Rightarrow> int \<Rightarrow> 'a list" where
  "shiftLeft lt data j =
     (if j \<ge> 1 then
        (if \<not> Less lt data j (j - 1) then data else shiftLeft lt (Swap data j (j - 1)) (j - 1))
      else data)"
  by pat_completeness auto
termination
  by (relation "measure (\<lambda>(lt, data, j). nat j)") auto

declare shiftLeft.simps [simp del]

function shiftRight :: "('a \<Rightarrow> 'a \<Rightarrow> bool) \<Rightarrow> 'a list \<Rightarrow> int \<Rightarrow> int \<Rightarrow> 'a list" where
  "shiftRight lt data j b =
     (if j < b then
        (if \<not> Less lt data j (j - 1) then data else shiftRight lt (Swap data j (j - 1)) (j + 1) b)
      else data)"
  by pat_completeness auto
termination
  by (relation "measure (\<lambda>(lt, data, j, b). nat (b - j))") auto

declare shiftRight.simps [simp del]

fun partialSteps :: "nat \<Rightarrow> ('a \<Rightarrow> 'a \<Rightarrow> bool) \<Rightarrow> 'a list \<Rightarrow> int \<Rightarrow> int \<Rightarrow> int \<Rightarrow> bool \<times> 'a list" where
  "partialSteps 0 lt data a b i = (False, data)"
| "partialSteps (Suc n) lt data a b i =
     (let i = skipSorted lt data i b
      in if i = b then (True, data)
         else if b - a < 50 then (False, data)
         else let data = Swap data i (i - 1);
                  data = (if i - a \<ge> 2 then shiftLeft lt data (i - 1) else data);
                  data = (if b - i \<ge> 2 then shiftRight lt data (i + 1) b else data)
              in partialSteps n lt data a b i)"

definition partialInsertionSort :: "('a \<Rightarrow> 'a \<Rightarrow> bool) \<Rightarrow> 'a list \<Rightarrow> int \<Rightarrow> int \<Rightarrow> bool \<times> 'a list" where
  "partialInsertionSort lt data a b = partialSteps 5 lt data a b (a + 1)"

text \<open>
  \<^verbatim>\<open>partition\<close>, here \<open>partitionGo\<close>: the pivot is swapped to the front; \<open>i\<close> goes up
  over the elements less than the pivot and \<open>j\<close> down over the others; while they have
  not crossed, the two elements they stop at are swapped; at the end the pivot is
  swapped to \<open>j\<close>. The result is the slice, the place of the pivot, and whether no
  elements were swapped.
\<close>

function scanLess :: "('a \<Rightarrow> 'a \<Rightarrow> bool) \<Rightarrow> 'a list \<Rightarrow> int \<Rightarrow> int \<Rightarrow> int \<Rightarrow> int" where
  "scanLess lt data a i j = (if i \<le> j \<and> Less lt data i a then scanLess lt data a (i + 1) j else i)"
  by pat_completeness auto
termination
  by (relation "measure (\<lambda>(lt, data, a, i, j). nat (j + 1 - i))") auto

declare scanLess.simps [simp del]

function scanNotLess :: "('a \<Rightarrow> 'a \<Rightarrow> bool) \<Rightarrow> 'a list \<Rightarrow> int \<Rightarrow> int \<Rightarrow> int \<Rightarrow> int" where
  "scanNotLess lt data a i j = (if i \<le> j \<and> \<not> Less lt data j a then scanNotLess lt data a i (j - 1) else j)"
  by pat_completeness auto
termination
  by (relation "measure (\<lambda>(lt, data, a, i, j). nat (j + 1 - i))") auto

declare scanNotLess.simps [simp del]

function partitionLoop :: "('a \<Rightarrow> 'a \<Rightarrow> bool) \<Rightarrow> 'a list \<Rightarrow> int \<Rightarrow> int \<Rightarrow> int \<Rightarrow> 'a list \<times> int" where
  "partitionLoop lt data a i j =
     (let i = scanLess lt data a i j; j = scanNotLess lt data a i j
      in if i > j then (data, j)
         else partitionLoop lt (Swap data i j) a (i + 1) (j - 1))"
  by pat_completeness auto
termination
proof (relation "measure (\<lambda>(lt, data, a, i, j). nat (j + 1 - i))", goal_cases)
  case 1
  show ?case by simp
next
  case (2 lt data a i j i' j')
  have "i \<le> scanLess lt data a i j"
    by (induction lt data a i j rule: scanLess.induct) (subst scanLess.simps, auto)
  moreover have "scanNotLess lt data a i' j \<le> j"
    by (induction lt data a i' j rule: scanNotLess.induct) (subst scanNotLess.simps, auto)
  ultimately show ?case using 2 by simp
qed

declare partitionLoop.simps [simp del]

definition partitionGo :: "('a \<Rightarrow> 'a \<Rightarrow> bool) \<Rightarrow> 'a list \<Rightarrow> int \<Rightarrow> int \<Rightarrow> int \<Rightarrow> 'a list \<times> int \<times> bool" where
  "partitionGo lt data a b pivot =
     (let data = Swap data a pivot;
          i = scanLess lt data a (a + 1) (b - 1);
          j = scanNotLess lt data a i (b - 1)
      in if i > j then (Swap data j a, j, True)
         else (case partitionLoop lt (Swap data i j) a (i + 1) (j - 1) of
                 (data, j) \<Rightarrow> (Swap data j a, j, False)))"

text \<open>
  \<^verbatim>\<open>partitionEqual\<close>, for a range that has no element less than the pivot: the elements
  equal to the pivot go to the front; the result is the slice and the index after them.
\<close>

function scanNotGreater :: "('a \<Rightarrow> 'a \<Rightarrow> bool) \<Rightarrow> 'a list \<Rightarrow> int \<Rightarrow> int \<Rightarrow> int \<Rightarrow> int" where
  "scanNotGreater lt data a i j =
     (if i \<le> j \<and> \<not> Less lt data a i then scanNotGreater lt data a (i + 1) j else i)"
  by pat_completeness auto
termination
  by (relation "measure (\<lambda>(lt, data, a, i, j). nat (j + 1 - i))") auto

declare scanNotGreater.simps [simp del]

function scanGreater :: "('a \<Rightarrow> 'a \<Rightarrow> bool) \<Rightarrow> 'a list \<Rightarrow> int \<Rightarrow> int \<Rightarrow> int \<Rightarrow> int" where
  "scanGreater lt data a i j =
     (if i \<le> j \<and> Less lt data a j then scanGreater lt data a i (j - 1) else j)"
  by pat_completeness auto
termination
  by (relation "measure (\<lambda>(lt, data, a, i, j). nat (j + 1 - i))") auto

declare scanGreater.simps [simp del]

function partitionEqualLoop :: "('a \<Rightarrow> 'a \<Rightarrow> bool) \<Rightarrow> 'a list \<Rightarrow> int \<Rightarrow> int \<Rightarrow> int \<Rightarrow> 'a list \<times> int" where
  "partitionEqualLoop lt data a i j =
     (let i = scanNotGreater lt data a i j; j = scanGreater lt data a i j
      in if i > j then (data, i)
         else partitionEqualLoop lt (Swap data i j) a (i + 1) (j - 1))"
  by pat_completeness auto
termination
proof (relation "measure (\<lambda>(lt, data, a, i, j). nat (j + 1 - i))", goal_cases)
  case 1
  show ?case by simp
next
  case (2 lt data a i j i' j')
  have "i \<le> scanNotGreater lt data a i j"
    by (induction lt data a i j rule: scanNotGreater.induct) (subst scanNotGreater.simps, auto)
  moreover have "scanGreater lt data a i' j \<le> j"
    by (induction lt data a i' j rule: scanGreater.induct) (subst scanGreater.simps, auto)
  ultimately show ?case using 2 by simp
qed

declare partitionEqualLoop.simps [simp del]

definition partitionEqual :: "('a \<Rightarrow> 'a \<Rightarrow> bool) \<Rightarrow> 'a list \<Rightarrow> int \<Rightarrow> int \<Rightarrow> int \<Rightarrow> 'a list \<times> int" where
  "partitionEqual lt data a b pivot = partitionEqualLoop lt (Swap data a pivot) a (a + 1) (b - 1)"

text \<open>
  \<^verbatim>\<open>pdqsort\<close> on \<^verbatim>\<open>data[a:b]\<close>. Its loop is the recursion on the range that is left after
  the smaller side of a partition has been sorted by the inner call; \<open>wasBalanced\<close> and
  \<open>wasPartitioned\<close> are the two flags of the loop, which start as \<open>True\<close> in every call.
  A range of at most 12 elements is sorted by \<^verbatim>\<open>insertionSort\<close>.
\<close>

function pdqsort :: "('a list \<Rightarrow> int \<Rightarrow> int \<Rightarrow> 'a list) \<Rightarrow> ('a list \<Rightarrow> int \<Rightarrow> int \<Rightarrow> 'a list) \<Rightarrow>
    ('a \<Rightarrow> 'a \<Rightarrow> bool) \<Rightarrow> 'a list \<Rightarrow> int \<Rightarrow> int \<Rightarrow> int \<Rightarrow> bool \<Rightarrow> bool \<Rightarrow> 'a list" where
  "pdqsort heapSort breakPatterns lt data a b lim wasBalanced wasPartitioned =
     (if b - a \<le> 12 then insertionSortGo lt data a b
      else if lim = 0 then heapSort data a b
      else
        (let data = (if \<not> wasBalanced then breakPatterns data a b else data);
             lim = (if \<not> wasBalanced then lim - 1 else lim);
             chosen = choosePivot lt data a b;
             decreasing = (snd chosen = decreasingHint);
             data = (if decreasing then reverseRange data a b else data);
             pivot = (if decreasing then (b - 1) - (fst chosen - a) else fst chosen);
             hint = (if decreasing then increasingHint else snd chosen);
             likelySorted = (wasBalanced \<and> wasPartitioned \<and> hint = increasingHint);
             partial = partialInsertionSort lt data a b;
             data = (if likelySorted then snd partial else data)
         in if likelySorted \<and> fst partial then data
            else if a > 0 \<and> \<not> Less lt data (a - 1) pivot then
              pdqsort heapSort breakPatterns lt (fst (partitionEqual lt data a b pivot))
                (snd (partitionEqual lt data a b pivot)) b lim wasBalanced wasPartitioned
            else
              (let parted = partitionGo lt data a b pivot;
                   data = fst parted;
                   mid = fst (snd parted);
                   alreadyPartitioned = snd (snd parted);
                   leftLen = mid - a;
                   rightLen = b - mid;
                   balanceThreshold = (b - a) div 8
               in if leftLen < rightLen then
                    pdqsort heapSort breakPatterns lt
                      (pdqsort heapSort breakPatterns lt data a mid lim True True)
                      (mid + 1) b lim (leftLen \<ge> balanceThreshold) alreadyPartitioned
                  else
                    pdqsort heapSort breakPatterns lt
                      (pdqsort heapSort breakPatterns lt data (mid + 1) b lim True True)
                      a mid lim (rightLen \<ge> balanceThreshold) alreadyPartitioned)))"
  by pat_completeness auto
termination
proof (relation "measure (\<lambda>(hs, brk, lt, data, a, b, lim, wb, wp). nat (b - a))", goal_cases)
  have up: "i \<le> scanLess lt data a i j" for lt :: "'a \<Rightarrow> 'a \<Rightarrow> bool" and data a i j
    by (induction lt data a i j rule: scanLess.induct) (subst scanLess.simps, auto)
  have up': "i \<le> j + 1 \<Longrightarrow> scanLess lt data a i j \<le> j + 1"
    for lt :: "'a \<Rightarrow> 'a \<Rightarrow> bool" and data a i j
    by (induction lt data a i j rule: scanLess.induct) (subst scanLess.simps, auto)
  have down: "scanNotLess lt data a i j \<le> j" for lt :: "'a \<Rightarrow> 'a \<Rightarrow> bool" and data a i j
    by (induction lt data a i j rule: scanNotLess.induct) (subst scanNotLess.simps, auto)
  have down': "i \<le> j + 1 \<Longrightarrow> i - 1 \<le> scanNotLess lt data a i j"
    for lt :: "'a \<Rightarrow> 'a \<Rightarrow> bool" and data a i j
    by (induction lt data a i j rule: scanNotLess.induct) (subst scanNotLess.simps, auto)
  have loop: "i \<le> j + 2 \<Longrightarrow>
      i - 2 \<le> snd (partitionLoop lt data a i j) \<and> snd (partitionLoop lt data a i j) \<le> j"
    for lt :: "'a \<Rightarrow> 'a \<Rightarrow> bool" and data a i j
  proof (induction lt data a i j rule: partitionLoop.induct)
    case (1 lt data a i j)
    let ?i = "scanLess lt data a i j"
    let ?j = "scanNotLess lt data a ?i j"
    have i: "i \<le> ?i" by (rule up)
    have j: "?j \<le> j" by (rule down)
    show ?case
    proof (cases "?i > ?j")
      case True
      have "i - 2 \<le> ?j"
      proof (cases "?i \<le> j + 1")
        case True
        then have "?i - 1 \<le> ?j" by (rule down')
        with i show ?thesis by simp
      next
        case False
        then have "?j = j" by (subst scanNotLess.simps) simp
        with 1(2) show ?thesis by simp
      qed
      with True j show ?thesis by (subst (1 2) partitionLoop.simps) (simp add: Let_def)
    next
      case False
      then have "?i + 1 \<le> ?j - 1 + 2" by simp
      with 1(1) [OF refl refl False] have
        "?i + 1 - 2 \<le> snd (partitionLoop lt (Swap data ?i ?j) a (?i + 1) (?j - 1)) \<and>
         snd (partitionLoop lt (Swap data ?i ?j) a (?i + 1) (?j - 1)) \<le> ?j - 1"
        by blast
      with False i j show ?thesis by (subst (1 2) partitionLoop.simps) (simp add: Let_def)
    qed
  qed
  have mid: "a \<le> fst (snd (partitionGo lt data a b pivot)) \<and> fst (snd (partitionGo lt data a b pivot)) < b"
    if "a < b" for lt :: "'a \<Rightarrow> 'a \<Rightarrow> bool" and data a b pivot
  proof -
    let ?d = "Swap data a pivot"
    let ?i = "scanLess lt ?d a (a + 1) (b - 1)"
    let ?j = "scanNotLess lt ?d a ?i (b - 1)"
    have i: "a + 1 \<le> ?i" by (rule up)
    from that have i': "?i \<le> b - 1 + 1" by (intro up') simp
    have j: "?j \<le> b - 1" by (rule down)
    from i' have j': "?i - 1 \<le> ?j" by (rule down')
    show ?thesis
    proof (cases "?i > ?j")
      case True
      with i j j' show ?thesis by (simp add: partitionGo_def Let_def)
    next
      case False
      then have "?i + 1 \<le> ?j - 1 + 2" by simp
      from loop [OF this, of lt "Swap ?d ?i ?j" a] i j False
      show ?thesis by (simp add: partitionGo_def Let_def case_prod_beta)
    qed
  qed
  have left: "a < b \<and> m < b"
    if "\<not> b - a \<le> 12" and "parted = partitionGo lt data a b pivot" and "m = fst (snd parted)"
    for lt :: "'a \<Rightarrow> 'a \<Rightarrow> bool" and data a b pivot parted m
    using that mid [of a b lt data pivot] by simp
  have right: "a < b \<and> - m - 1 < - a"
    if "\<not> b - a \<le> 12" and "parted = partitionGo lt data a b pivot" and "m = fst (snd parted)"
    for lt :: "'a \<Rightarrow> 'a \<Rightarrow> bool" and data a b pivot parted m
    using that mid [of a b lt data pivot] by simp
  have eqUp: "i \<le> scanNotGreater lt data a i j" for lt :: "'a \<Rightarrow> 'a \<Rightarrow> bool" and data a i j
    by (induction lt data a i j rule: scanNotGreater.induct) (subst scanNotGreater.simps, auto)
  have eqLoop: "i \<le> snd (partitionEqualLoop lt data a i j)"
    for lt :: "'a \<Rightarrow> 'a \<Rightarrow> bool" and data a i j
  proof (induction lt data a i j rule: partitionEqualLoop.induct)
    case (1 lt data a i j)
    let ?i = "scanNotGreater lt data a i j"
    let ?j = "scanGreater lt data a ?i j"
    have i: "i \<le> ?i" by (rule eqUp)
    show ?case
    proof (cases "?i > ?j")
      case True
      with i show ?thesis by (subst partitionEqualLoop.simps) (simp add: Let_def)
    next
      case False
      with 1 [OF refl refl False] i show ?thesis
        by (subst partitionEqualLoop.simps) (simp add: Let_def)
    qed
  qed
  have equal: "a < b \<and> a < snd (partitionEqual lt data a b pivot)"
    if "\<not> b - a \<le> 12" for lt :: "'a \<Rightarrow> 'a \<Rightarrow> bool" and data a b pivot
    using that eqLoop [of "a + 1" lt "Swap data a pivot" a "b - 1"] by (simp add: partitionEqual_def)
  {
    case 1
    show ?case by simp
  next
    case 2
    then show ?case
      by (simp (no_asm) add: Let_def) (rule equal; assumption)
  next
    case 3
    then show ?case
      by (simp (no_asm) add: Let_def) (rule left; assumption)
  next
    case 4
    then show ?case
      by (simp (no_asm) add: Let_def) (rule right; assumption)
  next
    case 5
    then show ?case
      by (simp (no_asm) add: Let_def) (rule right; assumption)
  next
    case 6
    then show ?case
      by (simp (no_asm) add: Let_def) (rule left; assumption)
  }
qed

declare pdqsort.simps [simp del]

text \<open>
  \<^verbatim>\<open>bits.Len\<close> of a length, and \<^verbatim>\<open>sort.Sort\<close>: a slice of more than one element is sorted
  by \<^verbatim>\<open>pdqsort\<close>, which may choose as many unbalanced partitions as the length has bits.
\<close>

function bitsLen :: "nat \<Rightarrow> nat" where
  "bitsLen n = (if n = 0 then 0 else Suc (bitsLen (n div 2)))"
  by pat_completeness auto
termination
  by (relation "measure id") auto

declare bitsLen.simps [simp del]

definition sortSort :: "('a list \<Rightarrow> int \<Rightarrow> int \<Rightarrow> 'a list) \<Rightarrow> ('a list \<Rightarrow> int \<Rightarrow> int \<Rightarrow> 'a list) \<Rightarrow>
    ('a \<Rightarrow> 'a \<Rightarrow> bool) \<Rightarrow> 'a list \<Rightarrow> 'a list" where
  "sortSort heapSort breakPatterns lt data =
     (let n = length data
      in if n \<le> 1 then data
         else pdqsort heapSort breakPatterns lt data 0 (int n) (int (bitsLen n)) True True)"

section \<open>Example inputs\<close>

text \<open>
  A sort that meets the contract: each element in turn is inserted into the sorted
  list, before the first element that is not to stand before it.
\<close>

fun insertBefore :: "('a \<Rightarrow> 'a \<Rightarrow> bool) \<Rightarrow> 'a \<Rightarrow> 'a list \<Rightarrow> 'a list" where
  "insertBefore lt x [] = [x]"
| "insertBefore lt x (y # ys) =
     (if lt y x then y # insertBefore lt x ys else x # y # ys)"

fun insertAll :: "('a \<Rightarrow> 'a \<Rightarrow> bool) \<Rightarrow> 'a list \<Rightarrow> 'a list \<Rightarrow> 'a list" where
  "insertAll lt [] acc = acc"
| "insertAll lt (x # xs) acc = insertAll lt xs (insertBefore lt x acc)"

definition insertionSort :: "('a \<Rightarrow> 'a \<Rightarrow> bool) \<Rightarrow> 'a list \<Rightarrow> 'a list" where
  "insertionSort lt xs = insertAll lt xs []"

text \<open>
  A configuration, and a storage layer given by its files and its listings. Its header
  decoder sets the title and the date 60; the clock is at 100.
\<close>

definition cfg0 :: Config where
  "cfg0 = \<lparr>cfgName = ''Author'', Email = ''author@example.org'', Account = ''author'',
           PlusID = ''1234'', PlusKey = ''key'', PublicURL = ''http://blog.example.org'',
           FeedID = ''tag:blog.example.org'', FeedTitle = ''Blog''\<rparr>"

definition world :: "(string \<Rightarrow> (string \<times> FileInfo) option) \<Rightarrow> (string \<Rightarrow> FileInfo list option) \<Rightarrow> Env" where
  "world rd ls =
     \<lparr>Read = rd, ReadDir = ls,
      Unmarshal = (\<lambda>hdr meta. Inr (meta\<lparr>Title := ''Parsed'', Date := 60\<rparr>)),
      UnmarshalCache = (\<lambda>data. (Map.empty, None)),
      Join = (\<lambda>a b. a @ ''/'' @ b),
      Sort = insertionSort,
      Execute = (\<lambda>main meta. Inr (main @ article meta)),
      ExecuteTOC = (\<lambda>main toc. Inr (main @ concat (map Title (Posts toc)))),
      Marshal = (\<lambda>feed. Inr (concat (map entry_Content (feed_Entry feed)))),
      MarshalCache = (\<lambda>postCache. Inr ''cache''),
      Write = (\<lambda>name data. None),
      Now = 100, Host = ''blog.example.org''\<rparr>"

definition regular :: "string \<Rightarrow> Time \<Rightarrow> FileInfo" where
  "regular n t = \<lparr>FileInfo.Name = n, ModTime = t, Size = 9, IsDir = False\<rparr>"

definition folder :: "string \<Rightarrow> FileInfo" where
  "folder n = \<lparr>FileInfo.Name = n, ModTime = 1, Size = 0, IsDir = True\<rparr>"

definition withHeader :: string where
  "withHeader = ''{'' @ [CHR 0x0A] @ ''}'' @ [CHR 0x0A] @ ''text''"

text \<open>A post without a date that names one reader.\<close>

definition secretDraft :: PostData where
  "secretDraft = zeroPostData\<lparr>Name := ''blog/post/secret'', Reader := [''bob@example.org'']\<rparr>"

text \<open>Fifteen posts, latest first; two of the five oldest are favorites.\<close>

definition post :: "Time \<Rightarrow> bool \<Rightarrow> PostData" where
  "post t fav = zeroPostData\<lparr>Date := t, Favorite := fav\<rparr>"


text \<open>
  Three storage layers for the feed, in which the names of the listing can be read:
  one file without a header; one file with a header; a file with a header and a file
  whose header has no end.
\<close>

definition onlyDraft :: Env where
  "onlyDraft = world (\<lambda>n. if n = ''idea'' then Some (''no header'', regular ''idea'' 1) else None)
                     (\<lambda>p. if p = ''blog/post'' then Some [regular ''idea'' 1] else None)"

definition onePost :: Env where
  "onePost = world (\<lambda>n. if n = ''hello'' then Some (withHeader, regular ''hello'' 1)
                         else if n = ''blog/atom.html'' then Some (''<p>'', regular ''blog/atom.html'' 1)
                         else None)
                   (\<lambda>p. if p = ''blog/post'' then Some [regular ''hello'' 1] else None)"

definition brokenFeed :: Env where
  "brokenFeed = world (\<lambda>n. if n = ''hello'' then Some (withHeader, regular ''hello'' 1)
                            else if n = ''bad'' then Some (''{'' @ [CHR 0x0A] @ ''Title'', regular ''bad'' 2)
                            else if n = ''blog/atom.html'' then Some (''<p>'', regular ''blog/atom.html'' 1)
                            else None)
                      (\<lambda>p. if p = ''blog/post'' then Some [regular ''hello'' 1, regular ''bad'' 2] else None)"

text \<open>
  A site: \<^verbatim>\<open>blog/post\<close> holds the file \<^verbatim>\<open>a\<close> and the directory \<^verbatim>\<open>sub\<close>, which holds the
  files \<^verbatim>\<open>c\<close> and \<^verbatim>\<open>gone\<close>; \<^verbatim>\<open>gone\<close> cannot be read. Files are read by their path from
  the root. The snapshot has an entry for \<^verbatim>\<open>a\<close>, which is still valid, and one for a file
  that is no longer there. \<open>siteDir\<close> is the scan of the site, \<open>siteEnd\<close> the state in
  which one refresh of it closes the channel, \<open>siteSnapshot\<close> and \<open>siteToc\<close> what is
  assembled then for an anonymous request of the published listing, \<open>sitePage\<close> the
  page rendered.
\<close>

definition cachedA :: PostData where
  "cachedA = zeroPostData\<lparr>Name := ''blog/post/a'', Title := ''A'', Date := 50,
                           FileModTime := 10, FileSize := 9\<rparr>"

definition cachedOld :: PostData where
  "cachedOld = zeroPostData\<lparr>Name := ''blog/post/old'', Title := ''Old'', Date := 40,
                             FileModTime := 5, FileSize := 9\<rparr>"

definition parsedC :: PostData where
  "parsedC = zeroPostData\<lparr>Name := ''blog/post/sub/c'', Title := ''Parsed'', Date := 60,
                 PlusAuthor := ''1234'', PlusAPIKey := ''key'',
                 HostURL := ''http://blog.example.org'', FileModTime := 40, FileSize := 9\<rparr>"

definition site :: Env where
  "site = (world (\<lambda>n. if n = ''blogcache'' then Some (''{}'', regular ''blogcache'' 1)
                       else if n = ''blog/main.html'' then Some (''<h1>'', regular ''blog/main.html'' 1)
                       else if n = ''blog/post/a'' then Some (''changed'', regular ''blog/post/a'' 10)
                       else if n = ''blog/post/sub/c'' then Some (withHeader, regular ''blog/post/sub/c'' 40)
                       else None)
                 (\<lambda>p. if p = ''blog/post'' then Some [regular ''a'' 10, folder ''sub'']
                       else if p = ''blog/post/sub'' then Some [regular ''c'' 40, regular ''gone'' 41]
                       else None))
          \<lparr>UnmarshalCache := (\<lambda>data. ([''blog/post/a'' \<mapsto> cachedA, ''blog/post/old'' \<mapsto> cachedOld], None))\<rparr>"

definition siteDir :: "FileInfo list" where
  "siteDir = [regular ''blog/post/a'' 10, regular ''blog/post/sub/c'' 40, regular ''blog/post/sub/gone'' 41]"

definition siteEnd :: refresh where
  "siteEnd = \<lparr>todo = [], limit = 0, workers = {#}, ch = [cachedA, parsedC], waited = 20,
              closed = True, logged = [ReadError ''blog/post/sub/gone''], fatal = [],
              crashed = False, acquired = 2, released = 2\<rparr>"

definition siteSnapshot :: "string \<rightharpoonup> PostData" where
  "siteSnapshot = [''blog/post/a'' \<mapsto> cachedA, ''blog/post/sub/c'' \<mapsto> parsedC]"

definition siteToc :: TocData where
  "siteToc = \<lparr>toc_User = ''?'', toc_Draft = False, toc_HostURL = ''http://blog.example.org'',
              DraftRoot = ''/draft'', PostRoot = ''/'', Posts = [parsedC, cachedA]\<rparr>"

definition sitePage :: string where
  "sitePage = ''<h1>ParsedA''"

text \<open>
  Thirteen posts in the order of their dates, oldest first; the second and the third
  have the same date.
\<close>

definition dated :: "string \<Rightarrow> Time \<Rightarrow> PostData" where
  "dated n t = zeroPostData\<lparr>Name := n, Date := t\<rparr>"

definition thirteen :: "PostData list" where
  "thirteen = [dated ''blog/post/01'' 1, dated ''blog/post/02a'' 2, dated ''blog/post/02b'' 2,
               dated ''blog/post/03'' 3, dated ''blog/post/04'' 4, dated ''blog/post/05'' 5,
               dated ''blog/post/06'' 6, dated ''blog/post/07'' 7, dated ''blog/post/08'' 8,
               dated ''blog/post/09'' 9, dated ''blog/post/10'' 10, dated ''blog/post/11'' 11,
               dated ''blog/post/12'' 12]"

text \<open>
  A site with a post whose header has no end: \<^verbatim>\<open>blog/post\<close> holds the file \<^verbatim>\<open>a\<close>, whose
  entry in the snapshot is valid, and the file \<^verbatim>\<open>bad\<close>, which opens a header and
  never closes it. \<open>brokenDir\<close> is the scan of the site, \<open>brokenEnd\<close> the state of a
  refresh of it after the panic of the load has ended the process.
\<close>

definition brokenSite :: Env where
  "brokenSite = (world (\<lambda>n. if n = ''blogcache'' then Some (''{}'', regular ''blogcache'' 1)
                             else if n = ''blog/main.html'' then Some (''<h1>'', regular ''blog/main.html'' 1)
                             else if n = ''blog/post/a'' then Some (''changed'', regular ''blog/post/a'' 10)
                             else if n = ''blog/post/bad''
                               then Some (''{'' @ [CHR 0x0A] @ ''Title'', regular ''blog/post/bad'' 2)
                             else None)
                       (\<lambda>p. if p = ''blog/post'' then Some [regular ''a'' 10, regular ''bad'' 2] else None))
                \<lparr>UnmarshalCache := (\<lambda>data. ([''blog/post/a'' \<mapsto> cachedA], None))\<rparr>"

definition brokenDir :: "FileInfo list" where
  "brokenDir = [regular ''blog/post/a'' 10, regular ''blog/post/bad'' 2]"

definition brokenEnd :: refresh where
  "brokenEnd = \<lparr>todo = [], limit = 20, workers = {#}, ch = [cachedA], waited = 0,
                closed = False, logged = [], fatal = [CannotFindEnd],
                crashed = True, acquired = 1, released = 1\<rparr>"

text \<open>
  A site without a snapshot whose two posts \<^verbatim>\<open>x\<close> and \<^verbatim>\<open>y\<close> have the same header, which
  gives the name \<^verbatim>\<open>other\<close>; the header decoder stores that name. \<open>renamedDir\<close> is the
  scan of the site, \<open>renamedX\<close> and \<open>renamedY\<close> are the posts loaded, \<open>renamedEnd\<close> a
  state in which a refresh closes the channel, \<open>renamedSnapshot\<close> and \<open>renamedToc\<close> what
  is assembled then for an anonymous request of the published listing.
\<close>

definition namedOther :: string where
  "namedOther = ''{'' @ [CHR 0x0A, CHR 0x22] @ ''Name'' @ [CHR 0x22] @ '': '' @ [CHR 0x22] @ ''other''
                 @ [CHR 0x22, CHR 0x0A] @ ''}'' @ [CHR 0x0A] @ ''text''"

definition renamedSite :: Env where
  "renamedSite = (world (\<lambda>n. if n = ''blog/main.html'' then Some (''<h1>'', regular ''blog/main.html'' 1)
                              else if n = ''blog/post/x'' then Some (namedOther, regular ''blog/post/x'' 7)
                              else if n = ''blog/post/y'' then Some (namedOther, regular ''blog/post/y'' 8)
                              else None)
                        (\<lambda>p. if p = ''blog/post'' then Some [regular ''x'' 7, regular ''y'' 8] else None))
                 \<lparr>Unmarshal := (\<lambda>hdr meta. Inr (meta\<lparr>Name := ''other''\<rparr>))\<rparr>"

definition renamedDir :: "FileInfo list" where
  "renamedDir = [regular ''blog/post/x'' 7, regular ''blog/post/y'' 8]"

definition renamedX :: PostData where
  "renamedX = zeroPostData\<lparr>Name := ''other'', Title := [CHR 0xC2, CHR 0xBF] @ ''Title?'',
                 PlusAuthor := ''1234'', PlusAPIKey := ''key'',
                 HostURL := ''http://blog.example.org'', FileModTime := 7, FileSize := 9\<rparr>"

definition renamedY :: PostData where
  "renamedY = zeroPostData\<lparr>Name := ''other'', Title := [CHR 0xC2, CHR 0xBF] @ ''Title?'',
                 PlusAuthor := ''1234'', PlusAPIKey := ''key'',
                 HostURL := ''http://blog.example.org'', FileModTime := 8, FileSize := 9\<rparr>"

definition renamedEnd :: refresh where
  "renamedEnd = \<lparr>todo = [], limit = 0, workers = {#}, ch = [renamedX, renamedY], waited = 20,
                 closed = True, logged = [], fatal = [],
                 crashed = False, acquired = 2, released = 2\<rparr>"

definition renamedSnapshot :: "string \<rightharpoonup> PostData" where
  "renamedSnapshot = [''other'' \<mapsto> renamedY]"

definition renamedToc :: TocData where
  "renamedToc = \<lparr>toc_User = ''?'', toc_Draft = False, toc_HostURL = ''http://blog.example.org'',
                 DraftRoot = ''/draft'', PostRoot = ''/'', Posts = []\<rparr>"

text \<open>The example site on a storage layer that refuses every write.\<close>

definition readOnlySite :: Env where
  "readOnlySite = site\<lparr>Write := (\<lambda>name data. Some ''read-only'')\<rparr>"

section \<open>Properties\<close>

subsection \<open>The Date field\<close>

text \<open>
  What \<^verbatim>\<open>UnmarshalJSON\<close> returns, whatever \<^verbatim>\<open>time.Parse\<close> does: the three layouts are
  tried in the order RFC 3339, "Monday, January 2, 2006", "January 2, 2006 15:00 -0700";
  the first layout that parses gives the result, and when none parses the call returns
  the error "did not recognize time". In the third layout the hour is followed by the
  text \<^verbatim>\<open>:00\<close>, where the layouts of \<^verbatim>\<open>time.Parse\<close> write the minute as \<^verbatim>\<open>04\<close>.
\<close>

lemma UnmarshalJSON_first_success:
  "UnmarshalJSON Parse data =
     (case Parse (quoted ''2006-01-02T15:04:05Z07:00'') data of
        Some t1 \<Rightarrow> Inr t1
      | None \<Rightarrow>
         (case Parse (quoted ''Monday, January 2, 2006'') data of
            Some t2 \<Rightarrow> Inr t2
          | None \<Rightarrow>
             (case Parse (quoted ''January 2, 2006 15:00 -0700'') data of
                Some t3 \<Rightarrow> Inr t3
              | None \<Rightarrow> Inl (DidNotRecognizeTime data))))"
  by (simp add: UnmarshalJSON_def timeFormats_def RFC3339_def split: option.splits)

subsection \<open>The filter of the listing\<close>

lemma canRead_loop_set: "canRead_loop rs user = (user \<in> set rs)"
  by (induction rs) auto

lemma canRead_iff: "canRead d user = (user \<in> set (Reader d))"
  by (simp add: canRead_def canRead_loop_set)

lemma inTOC_published:
  "inTOC False isOwner user now meta = ((\<not> IsDraft now meta \<and> \<not> NotInTOC meta) \<or> user \<in> set (Reader meta))"
  by (simp add: inTOC_def canRead_iff)

lemma inTOC_draft:
  "inTOC True isOwner user now meta = (isOwner \<or> user \<in> set (Reader meta))"
  by (simp add: inTOC_def canRead_iff)

text \<open>
  C1. The filter of the published listing admits a post that is neither a draft nor
  flagged \<^verbatim>\<open>NotInTOC\<close>, and also every post whose reader list holds the caller. So the
  published listing requested by the reader \<^verbatim>\<open>bob@example.org\<close>, who is not the owner,
  holds a post without a date, which is a draft. The listing of an anonymous caller does
  not hold it, yet both listings go into the output cache under one key. (Outside draft
  mode \<^verbatim>\<open>serve\<close> answers the reader's request for this very post with the not-found
  page, as the lemma after the theorem shows.)
\<close>

theorem C1_published_index_lists_readable_draft:
  "IsDraft 100 secretDraft \<and>
   snd (collect False False ''bob@example.org'' 100 [secretDraft] Map.empty []) = [secretDraft] \<and>
   snd (collect False False ''?'' 100 [secretDraft] Map.empty []) = [] \<and>
   keystr False [] ''bob@example.org'' = keystr False [] ''?''"
  by (simp add: secretDraft_def zeroPostData_def IsDraft_def IsZero_def inTOC_def canRead_def
      keystr_def)

lemma secretDraft_notServed: "notServed False False ''bob@example.org'' 100 secretDraft"
  by (simp add: secretDraft_def zeroPostData_def IsDraft_def IsZero_def notServed_def)

subsection \<open>Sorting by date\<close>

lemma byTime_not_Less: "(\<not> byTime_Less b a) = (Date b \<le> Date a)"
  by (auto simp: byTime_Less_def After_def)

lemma mset_insertBefore: "mset (insertBefore lt x ys) = add_mset x (mset ys)"
  by (induction ys) auto

lemma mset_insertAll: "mset (insertAll lt xs acc) = mset xs + mset acc"
  by (induction xs arbitrary: acc) (auto simp: mset_insertBefore)

lemma set_insertBefore: "set (insertBefore lt x ys) = insert x (set ys)"
  by (induction ys) auto

lemma sorted_insertBefore:
  "sorted_wrt (\<lambda>a b. Date b \<le> Date a) ys \<Longrightarrow>
   sorted_wrt (\<lambda>a b. Date b \<le> Date a) (insertBefore byTime_Less x ys)"
  by (induction ys) (auto simp: set_insertBefore byTime_Less_def After_def)

lemma sorted_insertAll:
  "sorted_wrt (\<lambda>a b. Date b \<le> Date a) acc \<Longrightarrow>
   sorted_wrt (\<lambda>a b. Date b \<le> Date a) (insertAll byTime_Less xs acc)"
  by (induction xs arbitrary: acc) (auto simp: sorted_insertBefore)

lemma insertionSort_contract: "sort_contract insertionSort"
  by (simp add: sort_contract_def insertionSort_def mset_insertAll sorted_insertAll byTime_not_Less)

lemma sorted_distinct_strict:
  "sorted_wrt (\<lambda>a b. Date b \<le> Date a) xs \<Longrightarrow> distinct (map Date xs) \<Longrightarrow>
   sorted_wrt (\<lambda>a b. Date b < Date a) xs"
proof (induction xs)
  case Nil
  then show ?case by simp
next
  case (Cons a xs)
  then have le: "\<forall>x\<in>set xs. Date x \<le> Date a" by simp
  from Cons.prems have "Date a \<notin> Date ` set xs" by simp
  then have "\<forall>x\<in>set xs. Date x \<noteq> Date a" by (metis imageI)
  with le have "\<forall>x\<in>set xs. Date x < Date a" by (simp add: less_le)
  with Cons show ?case by simp
qed

subsection \<open>The feed\<close>

lemma appendFavorites_take:
  "n \<le> i \<Longrightarrow> i + k = length arr \<Longrightarrow>
   take (snd (appendFavorites k i arr n)) (fst (appendFavorites k i arr n))
     = take n arr @ filter Favorite (drop i arr)"
proof (induction k arbitrary: i arr n)
  case 0
  then show ?case by simp
next
  case (Suc k)
  then have i: "i < length arr" and n: "n < length arr" by auto
  have d: "drop i arr = arr ! i # drop (Suc i) arr"
    using i by (simp add: Cons_nth_drop_Suc)
  show ?case
  proof (cases "Favorite (arr ! i)")
    case True
    have "take (snd (appendFavorites k (Suc i) (arr[n := arr ! i]) (Suc n)))
               (fst (appendFavorites k (Suc i) (arr[n := arr ! i]) (Suc n)))
            = take (Suc n) (arr[n := arr ! i]) @ filter Favorite (drop (Suc i) (arr[n := arr ! i]))"
      using Suc.prems by (intro Suc.IH) auto
    also have "take (Suc n) (arr[n := arr ! i]) = take n arr @ [arr ! i]"
      using n by (simp add: take_Suc_conv_app_nth)
    also have "drop (Suc i) (arr[n := arr ! i]) = drop (Suc i) arr"
      using Suc.prems by simp
    finally show ?thesis using True d by (simp add: Let_def)
  next
    case False
    have "take (snd (appendFavorites k (Suc i) arr n)) (fst (appendFavorites k (Suc i) arr n))
            = take n arr @ filter Favorite (drop (Suc i) arr)"
      using Suc.prems by (intro Suc.IH) auto
    with False d show ?thesis by (simp add: Let_def)
  qed
qed

lemma feedShow_eq: "feedShow all = take 10 all @ filter Favorite (drop 10 all)"
proof (cases "length all > 10")
  case True
  then show ?thesis
    using appendFavorites_take [of 10 10 "length all - 10" all]
    by (simp add: feedShow_def case_prod_beta)
next
  case False
  then show ?thesis by (simp add: feedShow_def)
qed

lemma feedShow_Nil: "(feedShow all = []) = (all = [])"
  by (cases all) (auto simp: feedShow_eq)



lemma feedEntries_not_IndexOutOfRange: "feedEntries c fid show es \<noteq> Inl IndexOutOfRange"
  by (induction "show" arbitrary: es) (auto split: option.splits sum.splits)

lemma atomfeed_empty:
  assumes "sort_contract (Sort c)" and "ReadDir c ''blog/post'' = Some dir"
    and "loadAll c cfg dir [] = Inr loaded"
  shows "(atomfeed c cfg = Inl IndexOutOfRange) = (loaded = [])"
proof -
  from assms(1) have "mset (Sort c byTime_Less loaded) = mset loaded"
    by (simp add: sort_contract_def)
  then have e: "(Sort c byTime_Less loaded = []) = (loaded = [])"
    by (metis mset_zero_iff)
  show ?thesis
  proof (cases "loaded = []")
    case True
    with e have "feedShow (Sort c byTime_Less loaded) = []" by (simp add: feedShow_Nil)
    with True assms show ?thesis by (simp add: atomfeed_def Let_def)
  next
    case False
    with e have "feedShow (Sort c byTime_Less loaded) \<noteq> []" by (simp add: feedShow_Nil)
    with False assms
      feedEntries_not_IndexOutOfRange [of c "FeedID cfg" "feedShow (Sort c byTime_Less loaded)" "[]"]
    show ?thesis
      by (auto simp: atomfeed_def Let_def simp del: feedEntries.simps split: sum.splits list.splits)
  qed
qed

lemma loadAll_Inr:
  "map (\<lambda>d. loadPost c cfg (FileInfo.Name d)) dir = map Return posts \<Longrightarrow>
   loadAll c cfg dir acc
     = Inr (acc @ map (\<lambda>(meta, art). meta\<lparr>article := art\<rparr>) (filter (\<lambda>(meta, art). \<not> IsDraft (Now c) meta) posts))"
proof (induction dir arbitrary: acc posts)
  case Nil
  then show ?case by simp
next
  case (Cons d dir)
  then obtain p ps where "posts = p # ps" by (cases posts) auto
  with Cons show ?case by (cases p) auto
qed

text \<open>
  C9. When every listed post loads, building the feed panics on \<^verbatim>\<open>show[0]\<close> (index out
  of range) exactly when no loaded post is a non-draft.
\<close>

theorem C9_empty_feed:
  assumes "sort_contract (Sort c)"
    and "ReadDir c ''blog/post'' = Some dir"
    and "map (\<lambda>d. loadPost c cfg (FileInfo.Name d)) dir = map Return posts"
  shows "(atomfeed c cfg = Inl IndexOutOfRange)
           = (filter (\<lambda>(meta, art). \<not> IsDraft (Now c) meta) posts = [])"
  using atomfeed_empty [OF assms(1) assms(2) loadAll_Inr [OF assms(3)]] by simp

lemma loadPost_idea:
  "loadPost onlyDraft cfg0 ''idea''
     = Return (zeroPostData\<lparr>Name := ''idea'', Title := [CHR 0xC2, CHR 0xBF] @ ''Title?'',
                 PlusAuthor := ''1234'', PlusAPIKey := ''key'',
                 HostURL := ''http://blog.example.org'', FileModTime := 1, FileSize := 9\<rparr>,
               ''no header'')"
  by (simp add: loadPost_def newPostData_def onlyDraft_def world_def cfg0_def regular_def hostURL_def
      Replace_def replacer_def zeroPostData_def)

lemma loadPost_hello:
  "loadPost onePost cfg0 ''hello''
     = Return (zeroPostData\<lparr>Name := ''hello'', Title := ''Parsed'', Date := 60,
                 PlusAuthor := ''1234'', PlusAPIKey := ''key'',
                 HostURL := ''http://blog.example.org'', FileModTime := 1, FileSize := 9\<rparr>,
               ''text'')"
  by (simp add: loadPost_def newPostData_def onePost_def world_def cfg0_def regular_def hostURL_def
      withHeader_def Replace_def replacer_def zeroPostData_def)

theorem C9_empty_feed_witness:
  "atomfeed onlyDraft cfg0 = Inl IndexOutOfRange \<and> atomfeed onePost cfg0 \<noteq> Inl IndexOutOfRange"
proof -
  have s1: "sort_contract (Sort onlyDraft)" and s2: "sort_contract (Sort onePost)"
    by (simp_all add: onlyDraft_def onePost_def world_def insertionSort_contract)
  have d1: "ReadDir onlyDraft ''blog/post'' = Some [regular ''idea'' 1]"
    by (simp add: onlyDraft_def world_def)
  have d2: "ReadDir onePost ''blog/post'' = Some [regular ''hello'' 1]"
    by (simp add: onePost_def world_def)
  have l1: "map (\<lambda>d. loadPost onlyDraft cfg0 (FileInfo.Name d)) [regular ''idea'' 1]
              = map Return [(zeroPostData\<lparr>Name := ''idea'', Title := [CHR 0xC2, CHR 0xBF] @ ''Title?'',
                 PlusAuthor := ''1234'', PlusAPIKey := ''key'',
                 HostURL := ''http://blog.example.org'', FileModTime := 1, FileSize := 9\<rparr>,
               ''no header'')]"
    by (simp add: regular_def loadPost_idea)
  have l2: "map (\<lambda>d. loadPost onePost cfg0 (FileInfo.Name d)) [regular ''hello'' 1]
              = map Return [(zeroPostData\<lparr>Name := ''hello'', Title := ''Parsed'', Date := 60,
                 PlusAuthor := ''1234'', PlusAPIKey := ''key'',
                 HostURL := ''http://blog.example.org'', FileModTime := 1, FileSize := 9\<rparr>,
               ''text'')]"
    by (simp add: regular_def loadPost_hello)
  have "atomfeed onlyDraft cfg0 = Inl IndexOutOfRange"
    using C9_empty_feed [OF s1 d1 l1]
    by (simp add: zeroPostData_def IsDraft_def IsZero_def)
  moreover have "atomfeed onePost cfg0 \<noteq> Inl IndexOutOfRange"
    using C9_empty_feed [OF s2 d2 l2]
    by (simp add: zeroPostData_def IsDraft_def IsZero_def After_def onePost_def world_def)
  ultimately show ?thesis by simp
qed

subsection \<open>Invariants of the refresh\<close>

lemma rank_step: "step pc load cap s s' \<Longrightarrow> rank s' < rank s"
  by (induction rule: step.induct) (auto simp: rank_def dest!: multi_member_split)

lemma reach_step: "reach pc load dir s \<Longrightarrow> step pc load (length dir) s s' \<Longrightarrow> reach pc load dir s'"
  by (simp add: reach_def)

lemma permits_inv_start: "permits_inv (start dir)"
  by (simp add: permits_inv_def start_def)

lemma permits_inv_step: "step pc load cap s s' \<Longrightarrow> permits_inv s \<Longrightarrow> permits_inv s'"
  by (induction rule: step.induct) (auto simp: permits_inv_def dest!: multi_member_split)

lemma permits_inv_reach: "reach pc load dir s \<Longrightarrow> permits_inv s"
  unfolding reach_def
  by (induction rule: rtranclp_induct) (auto intro: permits_inv_start permits_inv_step)

lemma set_map_filter: "set (List.map_filter f xs) = {y. \<exists>x\<in>set xs. f x = Some y}"
  by (induction xs) (auto split: option.splits)

lemma resolved_Nil: "resolved pc load [] = {#}"
  by (simp add: resolved_def)

lemma resolved_Cons_hit: "cacheHit pc d = Some meta \<Longrightarrow> resolved pc load (d # ds) = add_mset meta (resolved pc load ds)"
  by (simp add: resolved_def resolve_def)

lemma resolved_Cons_miss: "cacheHit pc d = None \<Longrightarrow> resolved pc load (d # ds) = pending load (Loading d) + resolved pc load ds"
  by (simp add: resolved_def resolve_def split: outcome.splits)

lemma content_inv_start: "content_inv pc load dir (start dir)"
  by (simp add: content_inv_def start_def)

lemma content_inv_step: "step pc load cap s s' \<Longrightarrow> content_inv pc load dir s \<Longrightarrow> content_inv pc load dir s'"
proof (induction rule: step.induct)
  case (hit s d ds meta)
  then show ?case by (simp add: content_inv_def resolved_Cons_hit)
next
  case (spawn s d ds)
  then show ?case by (simp add: content_inv_def resolved_Cons_miss ac_simps)
qed (auto simp: content_inv_def dest!: multi_member_split)

lemma content_inv_reach: "reach pc load dir s \<Longrightarrow> content_inv pc load dir s"
  unfolding reach_def
  by (induction rule: rtranclp_induct) (auto intro: content_inv_start content_inv_step)

lemma failures_Cons_hit: "cacheHit pc d = Some meta \<Longrightarrow> failures pc load (d # ds) = failures pc load ds"
  by (simp add: failures_def failure_def)

lemma failures_Cons_miss: "cacheHit pc d = None \<Longrightarrow> failures pc load (d # ds) = failing load (Loading d) + failures pc load ds"
  by (simp add: failures_def failure_def split: outcome.splits)

lemma logged_inv_start: "logged_inv pc load dir (start dir)"
  by (simp add: logged_inv_def start_def)

lemma logged_inv_step: "step pc load cap s s' \<Longrightarrow> logged_inv pc load dir s \<Longrightarrow> logged_inv pc load dir s'"
proof (induction rule: step.induct)
  case (hit s d ds meta)
  then show ?case by (simp add: logged_inv_def failures_Cons_hit)
next
  case (spawn s d ds)
  then show ?case by (simp add: logged_inv_def failures_Cons_miss ac_simps)
qed (auto simp: logged_inv_def dest!: multi_member_split)

lemma logged_inv_reach: "reach pc load dir s \<Longrightarrow> logged_inv pc load dir s"
  unfolding reach_def
  by (induction rule: rtranclp_induct) (auto intro: logged_inv_start logged_inv_step)

lemma capacity_inv_start: "capacity_inv (length dir) (start dir)"
  by (simp add: capacity_inv_def start_def)

lemma capacity_inv_step: "step pc load cap s s' \<Longrightarrow> capacity_inv cap s \<Longrightarrow> capacity_inv cap s'"
  by (induction rule: step.induct) (auto simp: capacity_inv_def dest!: multi_member_split)

lemma capacity_inv_reach: "reach pc load dir s \<Longrightarrow> capacity_inv (length dir) s"
  unfolding reach_def
  by (induction rule: rtranclp_induct) (auto intro: capacity_inv_start capacity_inv_step)

lemma origin_inv_start: "origin_inv pc load dir (start dir)"
  by (simp add: origin_inv_def start_def)

lemma origin_inv_step: "step pc load cap s s' \<Longrightarrow> origin_inv pc load dir s \<Longrightarrow> origin_inv pc load dir s'"
proof (induction rule: step.induct)
  case (hit s d ds meta)
  then show ?case by (auto simp: origin_inv_def stale_def)
next
  case (spawn s d ds)
  then show ?case by (auto simp: origin_inv_def stale_def)
next
  case (loaded s d meta)
  then show ?case by (auto simp: origin_inv_def dest: in_diffD)
next
  case (failed s d err)
  then show ?case by (auto simp: origin_inv_def dest: in_diffD)
next
  case (panicked s d e)
  then show ?case by (auto simp: origin_inv_def dest: in_diffD)
next
  case (send s meta)
  then show ?case by (auto simp: origin_inv_def dest: in_diffD)
next
  case (release s)
  then show ?case by (auto simp: origin_inv_def dest: in_diffD)
next
  case (unwind s e)
  then show ?case by (auto simp: origin_inv_def dest: in_diffD)
next
  case (abort s)
  then show ?case by (auto simp: origin_inv_def)
next
  case (wait s)
  then show ?case by (auto simp: origin_inv_def)
next
  case (close s)
  then show ?case by (auto simp: origin_inv_def)
qed

lemma origin_inv_reach: "reach pc load dir s \<Longrightarrow> origin_inv pc load dir s"
  unfolding reach_def
  by (induction rule: rtranclp_induct) (auto intro: origin_inv_start origin_inv_step)

subsection \<open>Progress and completion of the refresh\<close>

lemma worker_progress:
  assumes w: "w \<in># workers s" and p: "permits_inv s" and c: "capacity_inv cap s" and n: "\<not> crashed s"
  shows "\<exists>s'. step pc load cap s s'"
proof (cases w)
  case (Loading d)
  show ?thesis
  proof (cases "load d")
    case (Return meta)
    with w n Loading show ?thesis by (blast intro: step.loaded)
  next
    case (ReturnErr err)
    with w n Loading show ?thesis by (blast intro: step.failed)
  next
    case (Panic e)
    with w n Loading show ?thesis by (blast intro: step.panicked)
  qed
next
  case (Sending meta)
  with w c have "length (ch s) < cap"
    by (auto simp: capacity_inv_def dest!: multi_member_split)
  with w n Sending show ?thesis by (blast intro: step.send)
next
  case Deferred
  with w p have "limit s < par"
    by (auto simp: permits_inv_def dest!: multi_member_split)
  with w n Deferred show ?thesis by (blast intro: step.release)
next
  case (Panicking e)
  with w p have "limit s < par"
    by (auto simp: permits_inv_def dest!: multi_member_split)
  with w n Panicking show ?thesis by (blast intro: step.unwind)
qed

lemma some_worker:
  assumes "permits_inv s" and "limit s = 0" and "waited s < par"
  shows "\<exists>w. w \<in># workers s"
proof -
  from assms have "size (workers s) \<noteq> 0" by (auto simp: permits_inv_def)
  then have "workers s \<noteq> {#}" by auto
  then show ?thesis by (meson multiset_nonemptyE)
qed

lemma progress:
  assumes p: "permits_inv s" and c: "capacity_inv cap s" and nc: "\<not> closed s" and n: "\<not> crashed s"
  shows "\<exists>s'. step pc load cap s s'"
proof (cases "todo s")
  case (Cons d ds)
  show ?thesis
  proof (cases "cacheHit pc d")
    case (Some meta)
    from c Cons have "length (ch s) < cap" by (simp add: capacity_inv_def)
    with n Cons Some show ?thesis by (blast intro: step.hit)
  next
    case None
    show ?thesis
    proof (cases "0 < limit s")
      case True
      with n Cons None show ?thesis by (blast intro: step.spawn)
    next
      case False
      from p Cons have "waited s = 0" by (simp add: permits_inv_def)
      with False p obtain w where w: "w \<in># workers s"
        using some_worker [of s] by (auto simp: par_def)
      show ?thesis by (rule worker_progress [OF w p c n])
    qed
  qed
next
  case Nil
  show ?thesis
  proof (cases "waited s = par")
    case True
    with n nc Nil show ?thesis by (blast intro: step.close)
  next
    case False
    with p have lt: "waited s < par" by (simp add: permits_inv_def)
    show ?thesis
    proof (cases "0 < limit s")
      case True
      with n nc Nil lt show ?thesis by (blast intro: step.wait)
    next
      case False
      with p lt obtain w where w: "w \<in># workers s"
        using some_worker [of s] by auto
      show ?thesis by (rule worker_progress [OF w p c n])
    qed
  qed
qed

lemma no_panic_no_crash:
  assumes r: "reach pc load dir s"
    and np: "\<forall>d\<in>set dir. stale pc d \<longrightarrow> (\<forall>e. load d \<noteq> Panic e)"
  shows "\<not> crashed s \<and> fatal s = []"
proof -
  from r have "origin_inv pc load dir s" by (rule origin_inv_reach)
  with np show ?thesis
    by (cases "fatal s") (auto simp: origin_inv_def)
qed

lemma completes:
  assumes np: "\<forall>d\<in>set dir. stale pc d \<longrightarrow> (\<forall>e. load d \<noteq> Panic e)"
  shows "reach pc load dir s \<Longrightarrow> \<exists>s'. (step pc load (length dir))\<^sup>*\<^sup>* s s' \<and> closed s'"
proof (induction "rank s" arbitrary: s rule: less_induct)
  case less
  show ?case
  proof (cases "closed s")
    case True
    then show ?thesis by blast
  next
    case False
    from less.prems np have "\<not> crashed s" by (simp add: no_panic_no_crash)
    with False less.prems obtain s1 where s1: "step pc load (length dir) s s1"
      using progress [OF permits_inv_reach capacity_inv_reach] by blast
    then have "rank s1 < rank s" by (rule rank_step)
    moreover from less.prems s1 have "reach pc load dir s1" by (rule reach_step)
    ultimately obtain s' where "(step pc load (length dir))\<^sup>*\<^sup>* s1 s'" and "closed s'"
      using less.hyps by blast
    with s1 show ?thesis by (meson converse_rtranclp_into_rtranclp)
  qed
qed

lemma drain:
  "limit s = n \<Longrightarrow> waited s + n = par \<Longrightarrow> \<not> crashed s \<Longrightarrow> \<not> closed s \<Longrightarrow> todo s = [] \<Longrightarrow>
   (step pc load cap)\<^sup>*\<^sup>* s (s\<lparr>limit := 0, waited := par\<rparr>)"
proof (induction n arbitrary: s)
  case 0
  then have "s\<lparr>limit := 0, waited := par\<rparr> = s" by simp
  then show ?case by simp
next
  case (Suc n)
  let ?s1 = "s\<lparr>limit := limit s - 1, waited := Suc (waited s)\<rparr>"
  from Suc.prems have "step pc load cap s ?s1" by (intro step.wait) auto
  moreover from Suc.prems have "(step pc load cap)\<^sup>*\<^sup>* ?s1 (?s1\<lparr>limit := 0, waited := par\<rparr>)"
    by (intro Suc.IH) auto
  moreover have "?s1\<lparr>limit := 0, waited := par\<rparr> = s\<lparr>limit := 0, waited := par\<rparr>" by simp
  ultimately show ?case by (metis converse_rtranclp_into_rtranclp)
qed

lemma closed_facts:
  assumes r: "reach pc load dir s" and c: "closed s"
  shows "todo s = [] \<and> workers s = {#} \<and> waited s = par \<and> released s = acquired s \<and>
         acquired s = length (filter (stale pc) dir)"
proof -
  from r have p: "permits_inv s" by (rule permits_inv_reach)
  with c have t: "todo s = []" "waited s = par" by (auto simp: permits_inv_def)
  with p have w: "workers s = {#}" by (auto simp: permits_inv_def)
  from origin_inv_reach [OF r] t have "acquired s = length (filter (stale pc) dir)"
    by (simp add: origin_inv_def)
  with p t w show ?thesis by (simp add: permits_inv_def)
qed


lemma closed_ch:
  assumes r: "reach pc load dir s" and c: "closed s"
  shows "mset (ch s) = resolved pc load dir"
proof -
  from r have p: "permits_inv s" by (rule permits_inv_reach)
  with c have "todo s = []" "waited s = par" by (auto simp: permits_inv_def)
  with p have "workers s = {#}" by (auto simp: permits_inv_def)
  with content_inv_reach [OF r] \<open>todo s = []\<close> show ?thesis
    by (simp add: content_inv_def resolved_Nil)
qed

lemma closed_logged:
  assumes r: "reach pc load dir s" and c: "closed s"
  shows "mset (logged s) = failures pc load dir"
proof -
  from closed_facts [OF r c] have "todo s = []" "workers s = {#}" by simp_all
  with logged_inv_reach [OF r] show ?thesis
    by (simp add: logged_inv_def failures_def)
qed

lemma failure_logged:
  assumes r: "reach pc load dir s" and c: "closed s" and d: "d \<in> set dir"
    and f: "stale pc d" "load d = ReturnErr err"
  shows "err \<in> set (logged s)"
proof -
  from f have "failure pc load d = Some err" by (simp add: failure_def stale_def)
  with d have "err \<in> set (List.map_filter (failure pc load) dir)"
    by (auto simp: set_map_filter)
  then have "err \<in># failures pc load dir" by (simp add: failures_def)
  with closed_logged [OF r c] show ?thesis by (metis set_mset_mset)
qed

subsection \<open>A refresh of the example site\<close>

lemma regular_Name: "FileInfo.Name (regular n t) = n"
  by (simp add: regular_def)

lemma site_scan: "readDirEllipses site ''blog/post'' = Some (Inr siteDir)"
  by (simp add: readDirEllipses_def readDirLoop.simps site_def world_def siteDir_def regular_def folder_def)

lemma site_hit_a: "cacheHit (loadCache site) (regular ''blog/post/a'' 10) = Some cachedA"
  by (simp add: cacheHit_def loadCache_def site_def world_def regular_def cachedA_def zeroPostData_def Equal_def)

lemma site_miss_c: "cacheHit (loadCache site) (regular ''blog/post/sub/c'' 40) = None"
  by (simp add: cacheHit_def loadCache_def site_def world_def regular_def)

lemma site_miss_gone: "cacheHit (loadCache site) (regular ''blog/post/sub/gone'' 41) = None"
  by (simp add: cacheHit_def loadCache_def site_def world_def regular_def)

lemma site_load_c: "loadMeta site cfg0 (regular ''blog/post/sub/c'' 40) = Return parsedC"
  by (simp add: loadMeta_def loadPost_def newPostData_def site_def world_def cfg0_def regular_def hostURL_def
      withHeader_def Replace_def replacer_def zeroPostData_def parsedC_def)

lemma site_load_gone:
  "loadMeta site cfg0 (regular ''blog/post/sub/gone'' 41) = ReturnErr (ReadError ''blog/post/sub/gone'')"
  by (simp add: loadMeta_def loadPost_def newPostData_def site_def world_def regular_def)

lemma site_step_hit:
  "step (loadCache site) (loadMeta site cfg0) 3 (start siteDir)
     ((start siteDir)\<lparr>todo := [regular ''blog/post/sub/c'' 40, regular ''blog/post/sub/gone'' 41],
                      ch := [cachedA]\<rparr>)"
  using step.hit [where s = "start siteDir" and d = "regular ''blog/post/a'' 10"
      and ds = "[regular ''blog/post/sub/c'' 40, regular ''blog/post/sub/gone'' 41]" and meta = cachedA
      and postCache = "loadCache site" and cap = 3 and load = "loadMeta site cfg0"] site_hit_a
  by (simp add: start_def siteDir_def)

lemma site_step_spawn:
  "step (loadCache site) (loadMeta site cfg0) 3
     ((start siteDir)\<lparr>todo := [regular ''blog/post/sub/c'' 40, regular ''blog/post/sub/gone'' 41],
                      ch := [cachedA]\<rparr>)
     ((start siteDir)\<lparr>todo := [regular ''blog/post/sub/gone'' 41], ch := [cachedA], limit := 19,
                      workers := {#Loading (regular ''blog/post/sub/c'' 40)#}, acquired := 1\<rparr>)"
  using step.spawn [where s = "(start siteDir)\<lparr>todo := [regular ''blog/post/sub/c'' 40, regular ''blog/post/sub/gone'' 41],
                      ch := [cachedA]\<rparr>" and d = "regular ''blog/post/sub/c'' 40"
      and ds = "[regular ''blog/post/sub/gone'' 41]"
      and postCache = "loadCache site" and cap = 3 and load = "loadMeta site cfg0"] site_miss_c
  by (simp add: start_def par_def)

lemma site_run: "reach (loadCache site) (loadMeta site cfg0) siteDir siteEnd"
proof -
  let ?pc = "loadCache site" and ?ld = "loadMeta site cfg0"
  let ?a = "regular ''blog/post/a'' 10" and ?c = "regular ''blog/post/sub/c'' 40"
    and ?g = "regular ''blog/post/sub/gone'' 41"
  let ?s0 = "start siteDir"
  let ?s1 = "?s0\<lparr>todo := [?c, ?g], ch := [cachedA]\<rparr>"
  let ?s2 = "?s1\<lparr>todo := [?g], limit := 19, workers := {#Loading ?c#}, acquired := 1\<rparr>"
  let ?s3 = "?s2\<lparr>todo := [], limit := 18, workers := {#Loading ?g, Loading ?c#}, acquired := Suc (Suc 0)\<rparr>"
  let ?s4 = "?s3\<lparr>workers := {#Deferred, Loading ?c#}, logged := [ReadError ''blog/post/sub/gone'']\<rparr>"
  let ?s5 = "?s4\<lparr>workers := {#Sending parsedC, Deferred#}\<rparr>"
  let ?s6 = "?s5\<lparr>workers := {#Sending parsedC#}, limit := 19, released := 1\<rparr>"
  let ?s7 = "?s6\<lparr>workers := {#Deferred#}, ch := [cachedA, parsedC]\<rparr>"
  let ?s8 = "?s7\<lparr>workers := {#}, limit := 20, released := Suc (Suc 0)\<rparr>"
  let ?s9 = "?s8\<lparr>limit := 0, waited := par\<rparr>"
  have 1: "step ?pc ?ld 3 ?s0 ?s1"
    using site_step_hit by simp
  have 2: "step ?pc ?ld 3 ?s1 ?s2"
    using site_step_spawn by (simp add: start_def)
  have 3: "step ?pc ?ld 3 ?s2 ?s3"
    using step.spawn [where s = ?s2 and d = ?g and ds = "[]"
        and postCache = ?pc and cap = 3 and load = ?ld] site_miss_gone
    by (simp add: start_def)
  have 4: "step ?pc ?ld 3 ?s3 ?s4"
    using step.failed [where s = ?s3 and d = ?g and err = "ReadError ''blog/post/sub/gone''"
        and postCache = ?pc and cap = 3 and load = ?ld] site_load_gone
    by (simp add: start_def)
  have 5: "step ?pc ?ld 3 ?s4 ?s5"
    using step.loaded [where s = ?s4 and d = ?c and meta = parsedC
        and postCache = ?pc and cap = 3 and load = ?ld] site_load_c
    by (simp add: start_def)
  have 6: "step ?pc ?ld 3 ?s5 ?s6"
    using step.release [where s = ?s5 and postCache = ?pc and cap = 3 and load = ?ld]
    by (simp add: start_def par_def)
  have 7: "step ?pc ?ld 3 ?s6 ?s7"
    using step.send [where s = ?s6 and meta = parsedC and postCache = ?pc and cap = 3 and load = ?ld]
    by (simp add: start_def)
  have 8: "step ?pc ?ld 3 ?s7 ?s8"
    using step.release [where s = ?s7 and postCache = ?pc and cap = 3 and load = ?ld]
    by (simp add: start_def par_def)
  have 9: "(step ?pc ?ld 3)\<^sup>*\<^sup>* ?s8 ?s9"
    by (rule drain [where n = 20]) (simp_all add: start_def par_def)
  have 10: "step ?pc ?ld 3 ?s9 (?s9\<lparr>closed := True\<rparr>)"
    by (rule step.close) (simp_all add: start_def)
  have e: "?s9\<lparr>closed := True\<rparr> = siteEnd"
    by (simp add: start_def siteEnd_def par_def)
  have "(step ?pc ?ld 3)\<^sup>*\<^sup>* ?s0 ?s8"
    using 1 2 3 4 5 6 7 8 by (meson rtranclp.rtrancl_into_rtrancl rtranclp.rtrancl_refl)
  with 9 10 have "(step ?pc ?ld 3)\<^sup>*\<^sup>* ?s0 (?s9\<lparr>closed := True\<rparr>)"
    by (meson rtranclp.rtrancl_into_rtrancl rtranclp_trans)
  with e have r: "(step ?pc ?ld 3)\<^sup>*\<^sup>* ?s0 siteEnd" by simp
  have l: "length siteDir = 3" by (simp add: siteDir_def)
  show ?thesis unfolding reach_def l by (rule r)
qed

subsection \<open>A refresh of the site with the broken header\<close>

lemma broken_scan: "readDirEllipses brokenSite ''blog/post'' = Some (Inr brokenDir)"
  by (simp add: readDirEllipses_def readDirLoop.simps brokenSite_def world_def brokenDir_def regular_def)

lemma broken_hit_a: "cacheHit (loadCache brokenSite) (regular ''blog/post/a'' 10) = Some cachedA"
  by (simp add: cacheHit_def loadCache_def brokenSite_def world_def regular_def cachedA_def zeroPostData_def Equal_def)

lemma broken_miss_bad: "cacheHit (loadCache brokenSite) (regular ''blog/post/bad'' 2) = None"
  by (simp add: cacheHit_def loadCache_def brokenSite_def world_def regular_def)

lemma broken_load_bad: "loadMeta brokenSite cfg0 (regular ''blog/post/bad'' 2) = Panic CannotFindEnd"
  by (simp add: loadMeta_def loadPost_def brokenSite_def world_def regular_def)

lemma broken_run: "reach (loadCache brokenSite) (loadMeta brokenSite cfg0) brokenDir brokenEnd"
proof -
  let ?pc = "loadCache brokenSite" and ?ld = "loadMeta brokenSite cfg0"
  let ?a = "regular ''blog/post/a'' 10" and ?b = "regular ''blog/post/bad'' 2"
  let ?s0 = "start brokenDir"
  let ?s1 = "?s0\<lparr>todo := [?b], ch := [cachedA]\<rparr>"
  let ?s2 = "?s1\<lparr>todo := [], limit := 19, workers := {#Loading ?b#}, acquired := 1\<rparr>"
  let ?s3 = "?s2\<lparr>workers := {#Panicking CannotFindEnd#}\<rparr>"
  let ?s4 = "?s3\<lparr>workers := {#}, limit := 20, released := 1, fatal := [CannotFindEnd]\<rparr>"
  have 1: "step ?pc ?ld 2 ?s0 ?s1"
    using step.hit [where s = ?s0 and d = ?a and ds = "[?b]" and meta = cachedA
        and postCache = ?pc and cap = 2 and load = ?ld] broken_hit_a
    by (simp add: start_def brokenDir_def)
  have 2: "step ?pc ?ld 2 ?s1 ?s2"
    using step.spawn [where s = ?s1 and d = ?b and ds = "[]"
        and postCache = ?pc and cap = 2 and load = ?ld] broken_miss_bad
    by (simp add: start_def par_def)
  have 3: "step ?pc ?ld 2 ?s2 ?s3"
    using step.panicked [where s = ?s2 and d = ?b and e = CannotFindEnd
        and postCache = ?pc and cap = 2 and load = ?ld] broken_load_bad
    by (simp add: start_def)
  have 4: "step ?pc ?ld 2 ?s3 ?s4"
    using step.unwind [where s = ?s3 and e = CannotFindEnd and postCache = ?pc and cap = 2 and load = ?ld]
    by (simp add: start_def par_def)
  have 5: "step ?pc ?ld 2 ?s4 (?s4\<lparr>crashed := True\<rparr>)"
    by (rule step.abort) (simp_all add: start_def)
  have e: "?s4\<lparr>crashed := True\<rparr> = brokenEnd"
    by (simp add: start_def brokenEnd_def par_def)
  have "(step ?pc ?ld 2)\<^sup>*\<^sup>* ?s0 (?s4\<lparr>crashed := True\<rparr>)"
    using 1 2 3 4 5 by (meson rtranclp.rtrancl_into_rtrancl rtranclp.rtrancl_refl)
  with e have r: "(step ?pc ?ld 2)\<^sup>*\<^sup>* ?s0 brokenEnd" by simp
  have l: "length brokenDir = 2" by (simp add: brokenDir_def)
  show ?thesis unfolding reach_def l by (rule r)
qed


lemma broken_crash: "gentoc brokenSite cfg0 [] False False ''?'' (Crashed [CannotFindEnd])"
  using gentoc.crash [OF broken_scan _ broken_run, of "[]" False False "''?''"]
  by (simp add: brokenEnd_def)


subsection \<open>The barrier and the cache test\<close>




text \<open>
  C4. The dispatch loop reuses the cached entry of an item exactly when the loaded cache
  has an entry under the item's name whose recorded modification time and size both equal
  the file's; then the step sends the cached entry and changes neither the permits nor the
  goroutines. In every other case the step takes a permit and starts a goroutine that
  loads the post.
\<close>

theorem C4_cache_reuse:
  assumes "step postCache load cap s s'" and "todo s = d # ds" and "todo s' \<noteq> todo s"
  shows "(cacheHit postCache d \<noteq> None)
           = (\<exists>meta. postCache (FileInfo.Name d) = Some meta \<and>
                     FileModTime meta = ModTime d \<and> FileSize meta = Size d) \<and>
         (case cacheHit postCache d of
            Some meta \<Rightarrow> postCache (FileInfo.Name d) = Some meta \<and>
                         s' = s\<lparr>todo := ds, ch := ch s @ [meta]\<rparr>
          | None \<Rightarrow> s' = s\<lparr>todo := ds, limit := limit s - 1,
                            workers := add_mset (Loading d) (workers s),
                            acquired := Suc (acquired s)\<rparr>)"
proof -
  have "(cacheHit postCache d \<noteq> None)
           = (\<exists>meta. postCache (FileInfo.Name d) = Some meta \<and>
                     FileModTime meta = ModTime d \<and> FileSize meta = Size d)"
    by (auto simp: cacheHit_def Equal_def split: option.splits)
  moreover have "case cacheHit postCache d of
            Some meta \<Rightarrow> postCache (FileInfo.Name d) = Some meta \<and>
                         s' = s\<lparr>todo := ds, ch := ch s @ [meta]\<rparr>
          | None \<Rightarrow> s' = s\<lparr>todo := ds, limit := limit s - 1,
                            workers := add_mset (Loading d) (workers s),
                            acquired := Suc (acquired s)\<rparr>"
    using assms
  proof (cases rule: step.cases)
    case (hit d' ds' meta)
    with assms(2) show ?thesis
      by (auto simp: cacheHit_def split: option.splits if_splits)
  next
    case (spawn d' ds')
    with assms(2) show ?thesis by auto
  qed auto
  ultimately show ?thesis by blast
qed

theorem C4_cache_reuse_witness:
  "cacheHit (loadCache site) (regular ''blog/post/a'' 10) = Some cachedA \<and>
   cacheHit (loadCache site) (regular ''blog/post/sub/c'' 40) = None \<and>
   loadCache site ''blog/post/a'' = Some cachedA \<and>
   loadCache site ''blog/post/sub/c'' = None"
proof -
  have t: "todo (start siteDir) = regular ''blog/post/a'' 10 #
             [regular ''blog/post/sub/c'' 40, regular ''blog/post/sub/gone'' 41]"
    by (simp add: start_def siteDir_def)
  have n: "todo ((start siteDir)\<lparr>todo := [regular ''blog/post/sub/c'' 40, regular ''blog/post/sub/gone'' 41],
                      ch := [cachedA]\<rparr>) \<noteq> todo (start siteDir)"
    by (simp add: start_def siteDir_def)
  have "loadCache site ''blog/post/sub/c'' = None"
    by (simp add: loadCache_def site_def world_def)
  with C4_cache_reuse [OF site_step_hit t n] site_hit_a site_miss_c show ?thesis
    by (simp add: regular_def)
qed

subsection \<open>The listing and the snapshot\<close>

lemma collect_snd:
  "snd (collect draft isOwner user now ms pc all) = all @ filter (inTOC draft isOwner user now) ms"
  by (induction ms arbitrary: pc all) auto

lemma collect_fst_notin:
  "k \<notin> Name ` set ms \<Longrightarrow> fst (collect draft isOwner user now ms pc all) k = pc k"
  by (induction ms arbitrary: pc all) auto

lemma collect_fst_distinct:
  "distinct (map Name ms) \<Longrightarrow>
   fst (collect draft isOwner user now ms pc all) k
     = (case find (\<lambda>m. Name m = k) ms of Some m \<Rightarrow> Some m | None \<Rightarrow> pc k)"
proof (induction ms arbitrary: pc all)
  case Nil
  then show ?case by simp
next
  case (Cons m ms)
  show ?case
  proof (cases "Name m = k")
    case True
    with Cons.prems have "k \<notin> Name ` set ms" by auto
    with True show ?thesis by (simp add: collect_fst_notin)
  next
    case False
    with Cons show ?thesis by (simp split: option.splits)
  qed
qed

lemma find_distinct_Name:
  "distinct (map Name ms) \<Longrightarrow> (find (\<lambda>m. Name m = k) ms = Some m) = (m \<in> set ms \<and> Name m = k)"
  by (induction ms) (auto simp: rev_image_eqI)

lemma snapshot_iff:
  assumes "distinct (map Name ms)"
  shows "(fst (collect draft isOwner user now ms Map.empty []) k = Some m) = (m \<in> set ms \<and> Name m = k)"
proof -
  have "fst (collect draft isOwner user now ms Map.empty []) k
          = (case find (\<lambda>m. Name m = k) ms of Some m \<Rightarrow> Some m | None \<Rightarrow> None)"
    using assms by (simp add: collect_fst_distinct)
  then show ?thesis
    using find_distinct_Name [OF assms, of k m] by (auto split: option.splits)
qed

lemma map_filter_names:
  assumes "\<forall>d\<in>set dir. \<forall>m. resolve pc load d = Some m \<longrightarrow> Name m = FileInfo.Name d"
  shows "map Name (List.map_filter (resolve pc load) dir)
           = map FileInfo.Name (filter (\<lambda>d. resolve pc load d \<noteq> None) dir)"
  using assms by (induction dir) (auto split: option.splits)

lemma find_distinct_FileInfo:
  "distinct (map FileInfo.Name dir) \<Longrightarrow> (find (\<lambda>d. FileInfo.Name d = k) dir = Some d) = (d \<in> set dir \<and> FileInfo.Name d = k)"
  by (induction dir) (auto simp: rev_image_eqI)

lemma closed_snapshot:
  assumes r: "reach pc load dir s" and c: "closed s"
    and dn: "distinct (map FileInfo.Name dir)"
    and nm: "\<forall>d\<in>set dir. \<forall>m. resolve pc load d = Some m \<longrightarrow> Name m = FileInfo.Name d"
  shows "fst (collect draft isOwner user now (ch s) Map.empty []) k
           = (case find (\<lambda>d. FileInfo.Name d = k) dir of None \<Rightarrow> None | Some d \<Rightarrow> resolve pc load d)"
proof -
  let ?rs = "List.map_filter (resolve pc load) dir"
  have ms: "mset (ch s) = mset ?rs"
    using closed_ch [OF r c] by (simp add: resolved_def)
  have "distinct (map Name ?rs)"
    using dn by (simp add: map_filter_names [OF nm] distinct_map_filter)
  moreover have "mset (map Name (ch s)) = mset (map Name ?rs)"
    using ms by (metis mset_map)
  ultimately have dc: "distinct (map Name (ch s))"
    by (metis mset_eq_imp_distinct_iff)
  have sets: "set (ch s) = set ?rs"
    using ms by (rule mset_eq_setD)
  show ?thesis
  proof (cases "fst (collect draft isOwner user now (ch s) Map.empty []) k")
    case None
    have "\<not> (\<exists>d\<in>set dir. FileInfo.Name d = k \<and> resolve pc load d \<noteq> None)"
    proof
      assume "\<exists>d\<in>set dir. FileInfo.Name d = k \<and> resolve pc load d \<noteq> None"
      then obtain d m where d: "d \<in> set dir" "FileInfo.Name d = k" "resolve pc load d = Some m"
        by auto
      with nm have "Name m = k" by auto
      moreover from d have "m \<in> set (ch s)" by (auto simp: sets set_map_filter)
      ultimately have "fst (collect draft isOwner user now (ch s) Map.empty []) k = Some m"
        by (simp add: snapshot_iff [OF dc])
      with None show False by simp
    qed
    with None show ?thesis
      using find_distinct_FileInfo [OF dn, of k]
      by (auto split: option.splits)
  next
    case (Some m)
    then have "m \<in> set (ch s)" "Name m = k" by (auto simp: snapshot_iff [OF dc])
    then obtain d where d: "d \<in> set dir" "resolve pc load d = Some m"
      by (auto simp: sets set_map_filter)
    with nm \<open>Name m = k\<close> have "FileInfo.Name d = k" by auto
    with d dn have "find (\<lambda>d. FileInfo.Name d = k) dir = Some d"
      by (simp add: find_distinct_FileInfo)
    with Some d show ?thesis by simp
  qed
qed

lemma assemble_Posts:
  "Posts (snd (assemble c cfg draft isOwner user received))
     = Sort c byTime_Less (filter (inTOC draft isOwner user (Now c)) received)"
  using collect_snd [of draft isOwner user "Now c" received Map.empty "[]"]
  by (simp add: assemble_def case_prod_beta)

lemma site_assemble:
  "assemble site cfg0 False False ''?'' (ch siteEnd) = (siteSnapshot, siteToc)"
  by (simp add: assemble_def siteEnd_def site_def world_def cfg0_def hostURL_def siteSnapshot_def
      siteToc_def inTOC_def IsDraft_def IsZero_def After_def cachedA_def parsedC_def zeroPostData_def
      canRead_def insertionSort_def byTime_Less_def)

lemma site_render: "render site siteToc = Inr sitePage"
  by (simp add: render_def mainTemplate_def site_def world_def siteToc_def sitePage_def
      parsedC_def cachedA_def)

lemma site_writeCache: "writeCache site siteSnapshot = Inr ''cache''"
  by (simp add: writeCache_def site_def world_def)

lemma site_page: "gentoc site cfg0 [] False False ''?'' (Page siteSnapshot (Inr ''cache'') siteToc sitePage)"
  using gentoc.page [OF site_scan _ site_run _ _ site_assemble site_render]
  by (simp add: siteEnd_def site_writeCache)

lemma site_written: "written (Page siteSnapshot (Inr ''cache'') siteToc sitePage) = Some siteSnapshot"
  by simp

lemma renamed_scan: "readDirEllipses renamedSite ''blog/post'' = Some (Inr renamedDir)"
  by (simp add: readDirEllipses_def readDirLoop.simps renamedSite_def world_def renamedDir_def regular_def)

lemma renamed_cache: "loadCache renamedSite = Map.empty"
  by (simp add: loadCache_def renamedSite_def world_def)

lemma renamed_miss: "cacheHit (loadCache renamedSite) d = None"
  by (simp add: cacheHit_def renamed_cache)

lemma renamed_load_x: "loadMeta renamedSite cfg0 (regular ''blog/post/x'' 7) = Return renamedX"
  by (simp add: loadMeta_def loadPost_def newPostData_def renamedSite_def world_def cfg0_def regular_def
      hostURL_def namedOther_def Replace_def replacer_def zeroPostData_def renamedX_def)

lemma renamed_load_y: "loadMeta renamedSite cfg0 (regular ''blog/post/y'' 8) = Return renamedY"
  by (simp add: loadMeta_def loadPost_def newPostData_def renamedSite_def world_def cfg0_def regular_def
      hostURL_def namedOther_def Replace_def replacer_def zeroPostData_def renamedY_def)

lemma renamed_run: "reach (loadCache renamedSite) (loadMeta renamedSite cfg0) renamedDir renamedEnd"
proof -
  let ?pc = "loadCache renamedSite" and ?ld = "loadMeta renamedSite cfg0"
  let ?x = "regular ''blog/post/x'' 7" and ?y = "regular ''blog/post/y'' 8"
  let ?s0 = "start renamedDir"
  let ?s1 = "?s0\<lparr>todo := [?y], limit := 19, workers := {#Loading ?x#}, acquired := 1\<rparr>"
  let ?s2 = "?s1\<lparr>todo := [], limit := 18, workers := {#Loading ?y, Loading ?x#}, acquired := Suc (Suc 0)\<rparr>"
  let ?s3 = "?s2\<lparr>workers := {#Sending renamedX, Loading ?y#}\<rparr>"
  let ?s4 = "?s3\<lparr>workers := {#Deferred, Loading ?y#}, ch := [renamedX]\<rparr>"
  let ?s5 = "?s4\<lparr>workers := {#Loading ?y#}, limit := 19, released := 1\<rparr>"
  let ?s6 = "?s5\<lparr>workers := {#Sending renamedY#}\<rparr>"
  let ?s7 = "?s6\<lparr>workers := {#Deferred#}, ch := [renamedX, renamedY]\<rparr>"
  let ?s8 = "?s7\<lparr>workers := {#}, limit := 20, released := Suc (Suc 0)\<rparr>"
  let ?s9 = "?s8\<lparr>limit := 0, waited := par\<rparr>"
  have 1: "step ?pc ?ld 2 ?s0 ?s1"
    using step.spawn [where s = ?s0 and d = ?x and ds = "[?y]"
        and postCache = ?pc and cap = 2 and load = ?ld] renamed_miss
    by (simp add: start_def par_def renamedDir_def)
  have 2: "step ?pc ?ld 2 ?s1 ?s2"
    using step.spawn [where s = ?s1 and d = ?y and ds = "[]"
        and postCache = ?pc and cap = 2 and load = ?ld] renamed_miss
    by (simp add: start_def)
  have 3: "step ?pc ?ld 2 ?s2 ?s3"
    using step.loaded [where s = ?s2 and d = ?x and meta = renamedX
        and postCache = ?pc and cap = 2 and load = ?ld] renamed_load_x
    by (simp add: start_def)
  have 4: "step ?pc ?ld 2 ?s3 ?s4"
    using step.send [where s = ?s3 and meta = renamedX and postCache = ?pc and cap = 2 and load = ?ld]
    by (simp add: start_def)
  have 5: "step ?pc ?ld 2 ?s4 ?s5"
    using step.release [where s = ?s4 and postCache = ?pc and cap = 2 and load = ?ld]
    by (simp add: start_def par_def)
  have 6: "step ?pc ?ld 2 ?s5 ?s6"
    using step.loaded [where s = ?s5 and d = ?y and meta = renamedY
        and postCache = ?pc and cap = 2 and load = ?ld] renamed_load_y
    by (simp add: start_def)
  have 7: "step ?pc ?ld 2 ?s6 ?s7"
    using step.send [where s = ?s6 and meta = renamedY and postCache = ?pc and cap = 2 and load = ?ld]
    by (simp add: start_def)
  have 8: "step ?pc ?ld 2 ?s7 ?s8"
    using step.release [where s = ?s7 and postCache = ?pc and cap = 2 and load = ?ld]
    by (simp add: start_def par_def)
  have 9: "(step ?pc ?ld 2)\<^sup>*\<^sup>* ?s8 ?s9"
    by (rule drain [where n = 20]) (simp_all add: start_def par_def)
  have 10: "step ?pc ?ld 2 ?s9 (?s9\<lparr>closed := True\<rparr>)"
    by (rule step.close) (simp_all add: start_def)
  have e: "?s9\<lparr>closed := True\<rparr> = renamedEnd"
    by (simp add: start_def renamedEnd_def par_def)
  have "(step ?pc ?ld 2)\<^sup>*\<^sup>* ?s0 ?s8"
    using 1 2 3 4 5 6 7 8 by (meson rtranclp.rtrancl_into_rtrancl rtranclp.rtrancl_refl)
  with 9 10 have "(step ?pc ?ld 2)\<^sup>*\<^sup>* ?s0 (?s9\<lparr>closed := True\<rparr>)"
    by (meson rtranclp.rtrancl_into_rtrancl rtranclp_trans)
  with e have r: "(step ?pc ?ld 2)\<^sup>*\<^sup>* ?s0 renamedEnd" by simp
  have l: "length renamedDir = 2" by (simp add: renamedDir_def)
  show ?thesis unfolding reach_def l by (rule r)
qed

lemma renamed_assemble:
  "assemble renamedSite cfg0 False False ''?'' (ch renamedEnd) = (renamedSnapshot, renamedToc)"
  by (simp add: assemble_def renamedEnd_def renamedSite_def world_def cfg0_def hostURL_def renamedSnapshot_def
      renamedToc_def inTOC_def IsDraft_def IsZero_def After_def renamedX_def renamedY_def zeroPostData_def
      canRead_def insertionSort_def byTime_Less_def)

lemma renamed_render: "render renamedSite renamedToc = Inr ''<h1>''"
  by (simp add: render_def mainTemplate_def renamedSite_def world_def renamedToc_def)

lemma renamed_writeCache: "writeCache renamedSite renamedSnapshot = Inr ''cache''"
  by (simp add: writeCache_def renamedSite_def world_def)

lemma renamed_page:
  "gentoc renamedSite cfg0 [] False False ''?'' (Page renamedSnapshot (Inr ''cache'') renamedToc ''<h1>'')"
  using gentoc.page [OF renamed_scan _ renamed_run _ _ renamed_assemble renamed_render]
  by (simp add: renamedEnd_def renamed_writeCache)

lemma readOnly_loadCache: "loadCache readOnlySite = loadCache site"
  by (simp add: loadCache_def readOnlySite_def split: option.splits prod.splits)

lemma readOnly_loadMeta: "loadMeta readOnlySite cfg0 = loadMeta site cfg0"
  by (simp add: loadMeta_def loadPost_def newPostData_def readOnlySite_def fun_eq_iff Let_def
      split: option.splits prod.splits sum.splits)

lemma readOnly_page:
  "gentoc readOnlySite cfg0 [] False False ''?''
     (Page siteSnapshot (Inl (WriteError ''read-only'')) siteToc sitePage)"
proof -
  have sc: "readDirEllipses readOnlySite ''blog/post'' = Some (Inr siteDir)"
    by (simp add: readDirEllipses_def readDirLoop.simps readOnlySite_def site_def world_def siteDir_def
        regular_def folder_def)
  have rn: "reach (loadCache readOnlySite) (loadMeta readOnlySite cfg0) siteDir siteEnd"
    using site_run by (simp add: readOnly_loadCache readOnly_loadMeta)
  have a: "assemble readOnlySite cfg0 False False ''?'' (ch siteEnd) = (siteSnapshot, siteToc)"
    using site_assemble by (simp add: assemble_def readOnlySite_def)
  have r: "render readOnlySite siteToc = Inr sitePage"
    using site_render
    by (simp add: render_def mainTemplate_def readOnlySite_def split: option.splits prod.splits sum.splits)
  have w: "writeCache readOnlySite siteSnapshot = Inl (WriteError ''read-only'')"
    by (simp add: writeCache_def readOnlySite_def site_def world_def)
  show ?thesis
    using gentoc.page [OF sc _ rn _ _ a r] by (simp add: siteEnd_def w)
qed

lemma site_names:
  "\<forall>d\<in>set siteDir. \<forall>m. resolve (loadCache site) (loadMeta site cfg0) d = Some m \<longrightarrow> Name m = FileInfo.Name d"
  by (simp add: siteDir_def resolve_def site_hit_a site_miss_c site_miss_gone site_load_c site_load_gone
      cachedA_def parsedC_def regular_Name)

text \<open>
  C10, as it holds. When a pass has put a snapshot into \<^verbatim>\<open>blogcache\<close> (it reached the
  write, and encoding and writing succeeded), the names of the scanned items are distinct
  and the \<open>Name\<close> of every record resolved in the pass is the name of the item it was
  resolved for, then the snapshot maps the name of every scanned item to the record the
  pass resolved for it, the cached entry on a hit and the loaded post otherwise, and has
  no other key; \<open>draft\<close>, \<open>isOwner\<close> and \<open>user\<close> do not occur in it. So an old entry
  whose file is not scanned any more, or whose load failed, is absent.
\<close>

theorem C10_snapshot_is_resolved_set:
  assumes "gentoc c cfg readdir draft isOwner user result"
    and "written result = Some snapshot"
    and "readDirEllipses c ''blog/post'' = Some (Inr dir)"
    and "distinct (map FileInfo.Name dir)"
    and "\<forall>d\<in>set dir. \<forall>m. resolve (loadCache c) (loadMeta c cfg) d = Some m \<longrightarrow> Name m = FileInfo.Name d"
  shows "snapshot k = (case find (\<lambda>d. FileInfo.Name d = k) dir of
                         None \<Rightarrow> None
                       | Some d \<Rightarrow> resolve (loadCache c) (loadMeta c cfg) d)"
proof -
  from assms(1,2) obtain dir' s toc where
    "readDirEllipses c ''blog/post'' = Some (Inr dir')" and
    r: "reach (loadCache c) (loadMeta c cfg) dir' s" and c: "closed s" and
    a: "assemble c cfg draft isOwner user (ch s) = (snapshot, toc)"
    by (cases rule: gentoc.cases) (auto split: sum.splits elim: written.elims)
  with assms(3) have d: "dir' = dir" by simp
  from a have "snapshot = fst (collect draft isOwner user (Now c) (ch s) Map.empty [])"
    by (auto simp: assemble_def split: prod.splits)
  with r c d assms(4,5) show ?thesis
    by (simp add: closed_snapshot)
qed

theorem C10_snapshot_is_resolved_set_witness:
  "siteSnapshot ''blog/post/a'' = Some cachedA \<and>
   siteSnapshot ''blog/post/sub/c'' = Some parsedC \<and>
   siteSnapshot ''blog/post/sub/gone'' = None \<and>
   siteSnapshot ''blog/post/old'' = None \<and>
   loadCache site ''blog/post/old'' = Some cachedOld"
proof -
  have d: "distinct (map FileInfo.Name siteDir)" by (simp add: siteDir_def regular_def)
  have o: "loadCache site ''blog/post/old'' = Some cachedOld"
    by (simp add: loadCache_def site_def world_def)
  have "siteSnapshot ''blog/post/old'' = None"
    using C10_snapshot_is_resolved_set [OF site_page site_written site_scan d site_names,
        of "''blog/post/old''"]
    by (simp add: siteDir_def regular_Name)
  moreover have "siteSnapshot ''blog/post/sub/gone'' = None"
    using C10_snapshot_is_resolved_set [OF site_page site_written site_scan d site_names,
        of "''blog/post/sub/gone''"]
    by (simp add: siteDir_def regular_Name resolve_def site_miss_gone site_load_gone)
  ultimately show ?thesis using o by (simp add: siteSnapshot_def)
qed

text \<open>
  C10 as the claim states it does not hold. \<^verbatim>\<open>gentoc\<close> stores a record under the \<open>Name\<close>
  the record carries, and the header of a post can set that field: on the site whose two
  posts both give the name \<^verbatim>\<open>other\<close>, both are resolved, and the snapshot written has the
  one key \<^verbatim>\<open>other\<close>, bound to the post received last; the post of \<^verbatim>\<open>x\<close> is not in it,
  and neither scanned name is a key. And on a storage layer that refuses the write the
  pass renders its page and leaves \<^verbatim>\<open>blogcache\<close> as it was.
\<close>

theorem C10_snapshot_lacks_resolved_record:
  "gentoc renamedSite cfg0 [] False False ''?'' (Page renamedSnapshot (Inr ''cache'') renamedToc ''<h1>'') \<and>
   written (Page renamedSnapshot (Inr ''cache'') renamedToc ''<h1>'') = Some renamedSnapshot \<and>
   readDirEllipses renamedSite ''blog/post'' = Some (Inr renamedDir) \<and>
   resolve (loadCache renamedSite) (loadMeta renamedSite cfg0) (regular ''blog/post/x'' 7) = Some renamedX \<and>
   resolve (loadCache renamedSite) (loadMeta renamedSite cfg0) (regular ''blog/post/y'' 8) = Some renamedY \<and>
   renamedX \<noteq> renamedY \<and>
   renamedSnapshot = [''other'' \<mapsto> renamedY] \<and>
   renamedSnapshot ''blog/post/x'' = None \<and>
   renamedSnapshot ''blog/post/y'' = None \<and>
   gentoc readOnlySite cfg0 [] False False ''?''
     (Page siteSnapshot (Inl (WriteError ''read-only'')) siteToc sitePage) \<and>
   written (Page siteSnapshot (Inl (WriteError ''read-only'')) siteToc sitePage) = None"
  using renamed_page renamed_scan readOnly_page
  by (simp add: resolve_def renamed_miss renamed_load_x renamed_load_y renamedSnapshot_def
      renamedX_def renamedY_def zeroPostData_def)

text \<open>
  C8, as it holds. For every sort that meets the contract of \<^verbatim>\<open>sort.Sort\<close>, the posts of
  the index are the received posts that pass the filter, in an order in which no post is
  followed by a later one, and, when the dates of the received posts are distinct, in
  strictly descending order of date. Nothing is said of the order of posts with equal
  dates.
\<close>

theorem C8_index_sorted:
  assumes "sort_contract (Sort c)"
  shows "mset (Posts (snd (assemble c cfg draft isOwner user received)))
           = mset (filter (inTOC draft isOwner user (Now c)) received) \<and>
         sorted_wrt (\<lambda>a b. Date b \<le> Date a) (Posts (snd (assemble c cfg draft isOwner user received))) \<and>
         (distinct (map Date received) \<longrightarrow>
            sorted_wrt (\<lambda>a b. Date b < Date a) (Posts (snd (assemble c cfg draft isOwner user received))))"
proof -
  let ?shown = "filter (inTOC draft isOwner user (Now c)) received"
  let ?posts = "Sort c byTime_Less ?shown"
  from assms have m: "mset ?posts = mset ?shown"
    and s: "sorted_wrt (\<lambda>a b. Date b \<le> Date a) ?posts"
    by (simp_all add: sort_contract_def byTime_not_Less)
  have "distinct (map Date received) \<longrightarrow> sorted_wrt (\<lambda>a b. Date b < Date a) ?posts"
  proof
    assume "distinct (map Date received)"
    then have "distinct (map Date ?shown)" by (rule distinct_map_filter)
    moreover from m have "mset (map Date ?posts) = mset (map Date ?shown)" by (metis mset_map)
    ultimately have "distinct (map Date ?posts)" by (metis mset_eq_imp_distinct_iff)
    with s show "sorted_wrt (\<lambda>a b. Date b < Date a) ?posts" by (rule sorted_distinct_strict)
  qed
  with m s show ?thesis by (simp add: assemble_Posts)
qed

theorem C8_index_sorted_witness:
  "Posts (snd (assemble onePost cfg0 False False ''?'' [cachedA, parsedC])) = [parsedC, cachedA] \<and>
   sorted_wrt (\<lambda>a b. Date b < Date a) [parsedC, cachedA]"
proof -
  have s: "sort_contract (Sort onePost)"
    by (simp add: onePost_def world_def insertionSort_contract)
  have p: "Posts (snd (assemble onePost cfg0 False False ''?'' [cachedA, parsedC])) = [parsedC, cachedA]"
    by (simp add: assemble_def onePost_def world_def inTOC_def IsDraft_def IsZero_def After_def
        cachedA_def parsedC_def zeroPostData_def canRead_def insertionSort_def byTime_Less_def)
  have d: "distinct (map Date [cachedA, parsedC])"
    by (simp add: cachedA_def parsedC_def zeroPostData_def)
  from C8_index_sorted [OF s, of cfg0 False False "''?''" "[cachedA, parsedC]"] d p
  show ?thesis by simp
qed

lemma byTime_Less_dated: "byTime_Less (dated n t) (dated m u) = (u < t)"
  by (simp add: byTime_Less_def After_def dated_def)

lemma inTOC_dated: "inTOC False False user 100 (dated n t) = (t \<noteq> 0 \<and> t \<le> 100)"
  by (auto simp: inTOC_def IsDraft_def IsZero_def After_def canRead_def dated_def zeroPostData_def)

lemma sortSort_thirteen:
  "sortSort heapSort breakPatterns byTime_Less thirteen =
     [dated ''blog/post/12'' 12, dated ''blog/post/11'' 11, dated ''blog/post/10'' 10,
      dated ''blog/post/09'' 9, dated ''blog/post/08'' 8, dated ''blog/post/07'' 7,
      dated ''blog/post/06'' 6, dated ''blog/post/05'' 5, dated ''blog/post/04'' 4,
      dated ''blog/post/03'' 3, dated ''blog/post/02b'' 2, dated ''blog/post/02a'' 2,
      dated ''blog/post/01'' 1]"
  by (simp add: sortSort_def thirteen_def pdqsort.simps bitsLen.simps choosePivot_def median_def order2_def
      Less_def Swap_def partitionGo_def scanLess.simps scanNotLess.simps partitionLoop.simps
      insertionSortGo_def insertionOuter.simps insertionInner.simps Let_def byTime_Less_dated)

text \<open>
  C8 as the claim states it, with the encounter order kept among posts of one date, does
  not hold. Thirteen posts are received oldest first, as from a directory listed in this
  order whose snapshot is valid; the second and the third have the same date.
  \<^verbatim>\<open>sort.Sort\<close> takes the seventh as the pivot and partitions once, which swaps posts of
  the two ends, then sorts both sides by insertion; neither fallback is reached, whatever
  it does. The third post is listed before the second.
\<close>

theorem C8_equal_dates_change_places:
  "(\<forall>heapSort breakPatterns.
      Posts (snd (assemble (onePost\<lparr>Sort := sortSort heapSort breakPatterns\<rparr>) cfg0 False False ''?'' thirteen))
        = [dated ''blog/post/12'' 12, dated ''blog/post/11'' 11, dated ''blog/post/10'' 10,
           dated ''blog/post/09'' 9, dated ''blog/post/08'' 8, dated ''blog/post/07'' 7,
           dated ''blog/post/06'' 6, dated ''blog/post/05'' 5, dated ''blog/post/04'' 4,
           dated ''blog/post/03'' 3, dated ''blog/post/02b'' 2, dated ''blog/post/02a'' 2,
           dated ''blog/post/01'' 1]) \<and>
   thirteen ! 1 = dated ''blog/post/02a'' 2 \<and> thirteen ! 2 = dated ''blog/post/02b'' 2 \<and>
   Date (dated ''blog/post/02a'' 2) = Date (dated ''blog/post/02b'' 2) \<and>
   dated ''blog/post/02a'' 2 \<noteq> dated ''blog/post/02b'' 2"
proof -
  have f: "filter (inTOC False False ''?'' 100) thirteen = thirteen"
    by (simp add: thirteen_def inTOC_dated)
  have "Posts (snd (assemble (onePost\<lparr>Sort := sortSort heapSort breakPatterns\<rparr>) cfg0 False False ''?'' thirteen))
          = sortSort heapSort breakPatterns byTime_Less thirteen" for heapSort breakPatterns
    by (simp add: assemble_Posts onePost_def world_def f)
  then show ?thesis
    by (simp add: sortSort_thirteen) (simp add: thirteen_def dated_def zeroPostData_def)
qed

subsection \<open>The feed pass and the index pass\<close>

text \<open>
  C5. The feed pass does not go through the scan and the refresh of the index pass. On
  the example site the index pass scans \<^verbatim>\<open>blog/post/a\<close>, \<^verbatim>\<open>blog/post/sub/c\<close> and
  \<^verbatim>\<open>blog/post/sub/gone\<close> with \<^verbatim>\<open>readDirEllipses\<close>, takes the first from the snapshot,
  loads the second under its path and lists two posts. The feed pass lists the two
  children \<^verbatim>\<open>a\<close> and \<^verbatim>\<open>sub\<close> of \<^verbatim>\<open>blog/post\<close> with \<^verbatim>\<open>c.ReadDir\<close> and hands
  \<^verbatim>\<open>loadPost\<close> the name \<^verbatim>\<open>a\<close> as the listing gives it: \<^verbatim>\<open>loadPost\<close>, which loads the post
  under its path \<^verbatim>\<open>blog/post/a\<close>, cannot read a file of that name, and the feed pass
  panics with the read error.
\<close>

theorem C5_feed_fails_where_index_lists:
  "gentoc site cfg0 [] False False ''?'' (Page siteSnapshot (Inr ''cache'') siteToc sitePage) \<and>
   Posts siteToc = [parsedC, cachedA] \<and>
   readDirEllipses site ''blog/post'' = Some (Inr siteDir) \<and>
   ReadDir site ''blog/post'' = Some [regular ''a'' 10, folder ''sub''] \<and>
   (\<exists>x. loadPost site cfg0 ''blog/post/a'' = Return x) \<and>
   loadPost site cfg0 ''a'' = ReturnErr (ReadError ''a'') \<and>
   atomfeed site cfg0 = Inl (ReadError ''a'')"
proof -
  have "atomfeed site cfg0 = Inl (ReadError ''a'')"
    by (simp add: atomfeed_def loadPost_def site_def world_def regular_def)
  moreover have "ReadDir site ''blog/post'' = Some [regular ''a'' 10, folder ''sub'']"
    by (simp add: site_def world_def)
  moreover have "\<exists>x. loadPost site cfg0 ''blog/post/a'' = Return x"
    by (simp add: loadPost_def site_def world_def)
  moreover have "loadPost site cfg0 ''a'' = ReturnErr (ReadError ''a'')"
    by (simp add: loadPost_def site_def world_def)
  ultimately show ?thesis
    using site_page site_scan by (simp add: siteToc_def)
qed

lemma loadAll_fails:
  "d \<in> set dir \<Longrightarrow> \<forall>x. loadPost c cfg (FileInfo.Name d) \<noteq> Return x \<Longrightarrow>
   \<exists>e. loadAll c cfg dir acc = Inl e"
proof (induction dir arbitrary: acc)
  case Nil
  then show ?case by simp
next
  case (Cons d' dir)
  show ?case
  proof (cases "loadPost c cfg (FileInfo.Name d')")
    case (Return x)
    with Cons.prems(2) have "d \<noteq> d'" by metis
    with Cons.prems(1) have "d \<in> set dir" by simp
    with Cons.IH Cons.prems(2) have "\<And>acc. \<exists>e. loadAll c cfg dir acc = Inl e" by blast
    with Return show ?thesis by (cases x) auto
  next
    case (ReturnErr err)
    then show ?thesis by simp
  next
    case (Panic e)
    then show ?thesis by simp
  qed
qed

lemma broken_bad: "loadPost brokenFeed cfg0 ''bad'' = Panic CannotFindEnd"
  by (simp add: loadPost_def brokenFeed_def world_def)

text \<open>
  C6, as it holds. A file that starts a metadata header which has no end line, or which
  \<^verbatim>\<open>json.Unmarshal\<close> rejects, makes \<^verbatim>\<open>loadPost\<close> panic. Building the feed panics as soon
  as one listed entry does not load (error or panic). In a refresh of the index, a stale
  item whose load returns an error is logged and sends nothing: when the channel is
  closed the error is in the log, the channel holds exactly the resolved records of the
  other items and every permit has been returned; and when no stale item makes the load
  panic, the refresh never crashes and can always be run to the close.
\<close>

theorem C6_load_failures:
  "(Read c name = Some (art, fi) \<and> HasPrefix art (''{'' @ [CHR 0x0A]) \<and>
      (Index art ([CHR 0x0A] @ ''}'' @ [CHR 0x0A]) = None \<or>
       (\<exists>i msg. Index art ([CHR 0x0A] @ ''}'' @ [CHR 0x0A]) = Some i \<and>
                Unmarshal c (take (i + 3) art) (newPostData c cfg name) = Inl msg))
    \<longrightarrow> (\<exists>e. loadPost c cfg name = Panic e)) \<and>
   (ReadDir c ''blog/post'' = Some listing \<and> f \<in> set listing \<and>
      (\<forall>x. loadPost c cfg (FileInfo.Name f) \<noteq> Return x)
    \<longrightarrow> (\<exists>e. atomfeed c cfg = Inl e)) \<and>
   (reach postCache load dir s \<and> closed s \<and> d \<in> set dir \<and> stale postCache d \<and> load d = ReturnErr err
    \<longrightarrow> err \<in> set (logged s) \<and> resolve postCache load d = None \<and>
        mset (ch s) = resolved postCache load dir \<and> released s = acquired s) \<and>
   (reach postCache load dir s \<and> (\<forall>d\<in>set dir. stale postCache d \<longrightarrow> (\<forall>e. load d \<noteq> Panic e))
    \<longrightarrow> \<not> crashed s \<and> (\<exists>s'. (step postCache load (length dir))\<^sup>*\<^sup>* s s' \<and> closed s'))"
proof -
  have 1: "Read c name = Some (art, fi) \<and> HasPrefix art (''{'' @ [CHR 0x0A]) \<and>
      (Index art ([CHR 0x0A] @ ''}'' @ [CHR 0x0A]) = None \<or>
       (\<exists>i msg. Index art ([CHR 0x0A] @ ''}'' @ [CHR 0x0A]) = Some i \<and>
                Unmarshal c (take (i + 3) art) (newPostData c cfg name) = Inl msg))
    \<longrightarrow> (\<exists>e. loadPost c cfg name = Panic e)"
    by (auto simp: loadPost_def)
  have 2: "ReadDir c ''blog/post'' = Some listing \<and> f \<in> set listing \<and>
      (\<forall>x. loadPost c cfg (FileInfo.Name f) \<noteq> Return x)
    \<longrightarrow> (\<exists>e. atomfeed c cfg = Inl e)"
  proof
    assume a: "ReadDir c ''blog/post'' = Some listing \<and> f \<in> set listing \<and>
      (\<forall>x. loadPost c cfg (FileInfo.Name f) \<noteq> Return x)"
    then obtain e where "loadAll c cfg listing [] = Inl e"
      using loadAll_fails [of f listing c cfg "[]"] by blast
    with a show "\<exists>e. atomfeed c cfg = Inl e" by (simp add: atomfeed_def)
  qed
  have 3: "reach postCache load dir s \<and> closed s \<and> d \<in> set dir \<and> stale postCache d \<and> load d = ReturnErr err
    \<longrightarrow> err \<in> set (logged s) \<and> resolve postCache load d = None \<and>
        mset (ch s) = resolved postCache load dir \<and> released s = acquired s"
    using failure_logged [of postCache load dir s d err] closed_ch [of postCache load dir s]
      closed_facts [of postCache load dir s]
    by (auto simp: resolve_def stale_def)
  have 4: "reach postCache load dir s \<and> (\<forall>d\<in>set dir. stale postCache d \<longrightarrow> (\<forall>e. load d \<noteq> Panic e))
    \<longrightarrow> \<not> crashed s \<and> (\<exists>s'. (step postCache load (length dir))\<^sup>*\<^sup>* s s' \<and> closed s')"
    using no_panic_no_crash [of postCache load dir s] completes [of dir postCache load s] by blast
  from 1 2 3 4 show ?thesis by blast
qed

theorem C6_load_failures_witness:
  "(\<exists>e. loadPost brokenFeed cfg0 ''bad'' = Panic e) \<and>
   (\<exists>e. atomfeed brokenFeed cfg0 = Inl e) \<and>
   ReadError ''blog/post/sub/gone'' \<in> set (logged siteEnd) \<and>
   resolve (loadCache site) (loadMeta site cfg0) (regular ''blog/post/sub/gone'' 41) = None \<and>
   mset (ch siteEnd) = resolved (loadCache site) (loadMeta site cfg0) siteDir \<and>
   \<not> crashed siteEnd"
proof -
  have r: "Read brokenFeed ''bad'' = Some (''{'' @ [CHR 0x0A] @ ''Title'', regular ''bad'' 2)"
    by (simp add: brokenFeed_def world_def)
  have l: "ReadDir brokenFeed ''blog/post'' = Some [regular ''hello'' 1, regular ''bad'' 2]"
    by (simp add: brokenFeed_def world_def)
  have n: "\<forall>x. loadPost brokenFeed cfg0 (FileInfo.Name (regular ''bad'' 2)) \<noteq> Return x"
    by (simp add: regular_Name broken_bad)
  have c: "closed siteEnd" by (simp add: siteEnd_def)
  have g: "regular ''blog/post/sub/gone'' 41 \<in> set siteDir" by (simp add: siteDir_def)
  have st: "stale (loadCache site) (regular ''blog/post/sub/gone'' 41)"
    by (simp add: stale_def site_miss_gone)
  have np: "\<forall>d\<in>set siteDir. stale (loadCache site) d \<longrightarrow> (\<forall>e. loadMeta site cfg0 d \<noteq> Panic e)"
    by (simp add: siteDir_def site_load_c site_load_gone stale_def site_hit_a)
  from C6_load_failures [where c = brokenFeed and name = "''bad''" and cfg = cfg0
      and art = "''{'' @ [CHR 0x0A] @ ''Title''" and fi = "regular ''bad'' 2"
      and listing = "[regular ''hello'' 1, regular ''bad'' 2]" and f = "regular ''bad'' 2"
      and postCache = "loadCache site" and load = "loadMeta site cfg0" and dir = siteDir
      and s = siteEnd and d = "regular ''blog/post/sub/gone'' 41"
      and err = "ReadError ''blog/post/sub/gone''"]
    r l n c g st np site_run site_load_gone
  show ?thesis by simp
qed

text \<open>
  C6 as the claim states it does not hold, in neither pass. A listing of two files, of
  which the first loads and the second starts a header that has no end: \<^verbatim>\<open>loadPost\<close>
  panics on the second, and so does the feed pass, which produces nothing from the
  first. The site with the broken header: in the index pass the load of \<^verbatim>\<open>bad\<close> panics
  in its goroutine and the panic ends the process, with the cached post of \<^verbatim>\<open>a\<close> in the
  channel, the channel not closed and nothing logged.
\<close>

theorem C6_malformed_header_is_fatal:
  "loadPost brokenFeed cfg0 ''bad'' = Panic CannotFindEnd \<and>
   (\<exists>x. loadPost brokenFeed cfg0 ''hello'' = Return x) \<and>
   ReadDir brokenFeed ''blog/post'' = Some [regular ''hello'' 1, regular ''bad'' 2] \<and>
   atomfeed brokenFeed cfg0 = Inl CannotFindEnd \<and>
   readDirEllipses brokenSite ''blog/post'' = Some (Inr brokenDir) \<and>
   loadPost brokenSite cfg0 ''blog/post/bad'' = Panic CannotFindEnd \<and>
   reach (loadCache brokenSite) (loadMeta brokenSite cfg0) brokenDir brokenEnd \<and>
   ch brokenEnd = [cachedA] \<and> logged brokenEnd = [] \<and> crashed brokenEnd \<and> \<not> closed brokenEnd \<and>
   gentoc brokenSite cfg0 [] False False ''?'' (Crashed [CannotFindEnd])"
proof -
  have "loadPost brokenFeed cfg0 ''bad'' = Panic CannotFindEnd \<and>
   (\<exists>x. loadPost brokenFeed cfg0 ''hello'' = Return x) \<and>
   ReadDir brokenFeed ''blog/post'' = Some [regular ''hello'' 1, regular ''bad'' 2] \<and>
   atomfeed brokenFeed cfg0 = Inl CannotFindEnd"
    by (simp add: atomfeed_def loadPost_def newPostData_def brokenFeed_def world_def regular_def
        withHeader_def IsDraft_def IsZero_def After_def)
  moreover have "loadPost brokenSite cfg0 ''blog/post/bad'' = Panic CannotFindEnd"
    by (simp add: loadPost_def brokenSite_def world_def)
  ultimately show ?thesis
    using broken_scan broken_run broken_crash by (simp add: brokenEnd_def)
qed

end
